theory Spec2Isabelle
  imports Main
begin

section \<open>Data model (types.ts)\<close>

text \<open>
  The closed enumeration of providers, and the two message roles
  (\<^verbatim>\<open>role: 'user' | 'model'\<close>).
\<close>

datatype ModelProvider = Gemini | OpenAI | DeepSeek

datatype Role = User | Model

text \<open>
  \<^verbatim>\<open>interface Message\<close>. The fields \<^verbatim>\<open>id\<close> and \<^verbatim>\<open>image\<close> carry a suffix because
  HOL already has constants of these names. An optional field (\<^verbatim>\<open>image?\<close>,
  \<^verbatim>\<open>isError?\<close>) is an option: \<open>None\<close> is JavaScript's \<^verbatim>\<open>undefined\<close>.
  Text is a list of characters, one \<open>char\<close> for each UTF-16 code unit below 256.
\<close>

record Message =
  id_msg :: string
  role :: Role
  content :: string
  timestamp :: nat
  image_msg :: "string option"
  isError :: "bool option"

record ChatSession =
  id_sess :: string
  title :: string
  messages :: "Message list"
  createdAt :: nat
  updatedAt :: nat
  model :: ModelProvider

record UserProfile =
  name :: string
  avatarUrl :: "string option"

text \<open>
  \<^verbatim>\<open>apiKeys\<close> is an object with one optional key for each provider; \<open>key_for\<close>
  is the lookup \<^verbatim>\<open>apiKeys[provider]\<close>.
\<close>

record ApiKeys =
  key_Gemini :: "string option"
  key_OpenAI :: "string option"
  key_DeepSeek :: "string option"

definition key_for :: "ApiKeys \<Rightarrow> ModelProvider \<Rightarrow> string option" where
  "key_for ks p =
     (case p of Gemini \<Rightarrow> key_Gemini ks | OpenAI \<Rightarrow> key_OpenAI ks | DeepSeek \<Rightarrow> key_DeepSeek ks)"

record AppSettings =
  apiKeys :: ApiKeys
  systemInstruction :: string
  activeModel :: ModelProvider
  profile :: UserProfile
  darkMode :: bool
  enterToSend :: bool

section \<open>JavaScript primitives used by the code\<close>

text \<open>
  \<^verbatim>\<open>!x\<close> on an optional string: true for \<^verbatim>\<open>undefined\<close>, \<^verbatim>\<open>null\<close> and the empty string.
\<close>

definition falsy_str :: "string option \<Rightarrow> bool" where
  "falsy_str x = (case x of None \<Rightarrow> True | Some s \<Rightarrow> s = [])"

text \<open>\<^verbatim>\<open>Number.prototype.toString\<close> on a non-negative integer: its decimal digits.\<close>

definition digit_char :: "nat \<Rightarrow> char" where
  "digit_char d = char_of (48 + d)"

fun num_toString :: "nat \<Rightarrow> string" where
  "num_toString n =
     (if n < 10 then [digit_char n] else num_toString (n div 10) @ [digit_char (n mod 10)])"

declare num_toString.simps [simp del]

text \<open>
  \<^verbatim>\<open>String.prototype.trim\<close>: the white space and line terminators of ECMAScript that
  lie below code unit 256 (tab, line feed, vertical tab, form feed, carriage return,
  space, no-break space).
\<close>

definition is_js_space :: "char \<Rightarrow> bool" where
  "is_js_space c = ((of_char c :: nat) \<in> {9, 10, 11, 12, 13, 32, 160})"

definition trim :: "string \<Rightarrow> string" where
  "trim s = rev (dropWhile is_js_space (rev (dropWhile is_js_space s)))"

text \<open>
  \<^verbatim>\<open>s.split(d)\<close> for a one-character separator: the pieces between the separators,
  empty pieces included; the empty string splits into one empty piece.
\<close>

fun split_acc :: "char \<Rightarrow> string \<Rightarrow> string \<Rightarrow> string list" where
  "split_acc d acc [] = [rev acc]"
| "split_acc d acc (c # cs) =
     (if c = d then rev acc # split_acc d [] cs else split_acc d (c # acc) cs)"

definition split_str :: "char \<Rightarrow> string \<Rightarrow> string list" where
  "split_str d s = split_acc d [] s"

text \<open>\<^verbatim>\<open>xs.join(d)\<close> for a one-character separator.\<close>

fun join :: "char \<Rightarrow> string list \<Rightarrow> string" where
  "join d [] = []"
| "join d [x] = x"
| "join d (x # y # ys) = x @ d # join d (y # ys)"

text \<open>\<^verbatim>\<open>s.startsWith(p)\<close> and \<^verbatim>\<open>s.includes(p)\<close>.\<close>

fun startsWith :: "string \<Rightarrow> string \<Rightarrow> bool" where
  "startsWith s [] = True"
| "startsWith [] (p # ps) = False"
| "startsWith (c # cs) (p # ps) = (c = p \<and> startsWith cs ps)"

fun includes_str :: "string \<Rightarrow> string \<Rightarrow> bool" where
  "includes_str [] p = (p = [])"
| "includes_str (c # cs) p = (startsWith (c # cs) p \<or> includes_str cs p)"

section \<open>Session store and turn handlers (App.tsx)\<close>

text \<open>
  The component state of \<^verbatim>\<open>App\<close> that the turn handlers read and write. The two
  flags \<^verbatim>\<open>isSidebarOpen\<close> and \<^verbatim>\<open>isSettingsOpen\<close> only drive the layout and are left out.
  \<^verbatim>\<open>currentSessionId\<close> is \<^verbatim>\<open>string | null\<close>.
\<close>

record AppState =
  sessions :: "ChatSession list"
  currentSessionId :: "string option"
  settings :: AppSettings
  isLoading :: bool

text \<open>
  \<^verbatim>\<open>Date.now()\<close> is read several times in one handler. The readings are the argument
  \<open>now\<close>: \<open>now k\<close> is the value of the \<open>k\<close>-th call in the handler's text.
\<close>

definition createNewChat :: "(nat \<Rightarrow> nat) \<Rightarrow> AppState \<Rightarrow> AppState" where
  "createNewChat now st =
     (let newSession = \<lparr> id_sess = num_toString (now 0), title = ''New Chat'',
                          messages = [], createdAt = now 1, updatedAt = now 2,
                          model = activeModel (settings st) \<rparr>
      in st \<lparr> sessions := newSession # sessions st,
              currentSessionId := Some (id_sess newSession) \<rparr>)"

text \<open>
  \<^verbatim>\<open>deleteChat\<close>: the session is filtered out by id; when it was the selected one, the
  first remaining session is selected (\<^verbatim>\<open>newSessions[0]?.id || null\<close>), and an emptied
  store gets a fresh chat.
\<close>

definition deleteChat :: "(nat \<Rightarrow> nat) \<Rightarrow> string \<Rightarrow> AppState \<Rightarrow> AppState" where
  "deleteChat now sid st =
     (let newSessions = filter (\<lambda>s. id_sess s \<noteq> sid) (sessions st);
          st1 = st \<lparr> sessions := newSessions \<rparr>
      in if currentSessionId st = Some sid then
           (let st2 = st1 \<lparr> currentSessionId :=
                         (case newSessions of
                            [] \<Rightarrow> None
                          | s # _ \<Rightarrow> if id_sess s = [] then None else Some (id_sess s)) \<rparr>
            in if newSessions = [] then createNewChat now st2 else st2)
         else st1)"

text \<open>
  What the three callbacks of one turn close over: the session id and the placeholder
  id fixed when the message was sent, the network context, the text and the settings.
\<close>

record Turn =
  t_sessionId :: string
  t_aiMsgId :: string
  t_context :: "Message list"
  t_text :: string
  t_settings :: AppSettings

text \<open>
  \<^verbatim>\<open>handleSendMessage\<close> up to the call of \<^verbatim>\<open>aiService.streamResponse\<close>. The result is
  the new state and, when a stream is started, the turn it belongs to; \<open>None\<close> is the
  early \<^verbatim>\<open>return\<close>. The context is read from the sessions as they were before the two
  updates, as the handler's closure does.
\<close>

definition handleSendMessage ::
  "(nat \<Rightarrow> nat) \<Rightarrow> string \<Rightarrow> string option \<Rightarrow> AppState \<Rightarrow> AppState \<times> Turn option" where
  "handleSendMessage now text img st =
     (case currentSessionId st of
        None \<Rightarrow> (st, None)
      | Some sid \<Rightarrow>
          if sid = [] then (st, None)
          else
            (let userMsg = \<lparr> id_msg = num_toString (now 0), role = User, content = text,
                              timestamp = now 1, image_msg = img, isError = None \<rparr>;
                 st1 = st \<lparr> sessions := map (\<lambda>s. if id_sess s = sid
                                   then s \<lparr> messages := messages s @ [userMsg],
                                           updatedAt := now 2 \<rparr>
                                   else s) (sessions st) \<rparr>;
                 st2 = st1 \<lparr> isLoading := True \<rparr>;
                 aiMsgId = num_toString (now 3 + 1);
                 aiMsgPlaceholder = \<lparr> id_msg = aiMsgId, role = Model, content = [],
                                       timestamp = now 4, image_msg = None, isError = None \<rparr>;
                 st3 = st2 \<lparr> sessions := map (\<lambda>s. if id_sess s = sid
                                   then s \<lparr> messages := messages s @ [aiMsgPlaceholder] \<rparr>
                                   else s) (sessions st2) \<rparr>;
                 sessionMessages = (case find (\<lambda>s. id_sess s = sid) (sessions st) of
                                      None \<Rightarrow> [] | Some s \<Rightarrow> messages s);
                 contextMessages = sessionMessages @ [userMsg]
             in (st3, Some \<lparr> t_sessionId = sid, t_aiMsgId = aiMsgId,
                             t_context = contextMessages, t_text = text,
                             t_settings = settings st \<rparr>)))"

text \<open>
  \<^verbatim>\<open>ChatInput.handleSend\<close>, the guard in front of \<^verbatim>\<open>onSend\<close>: nothing is sent for blank
  text without an image, nor while a response is awaited. The text and the image of the
  input field, which the handler clears once \<^verbatim>\<open>onSend\<close> has been called, belong to the
  input component and are not part of the state modelled here.
\<close>

definition handleSend ::
  "(nat \<Rightarrow> nat) \<Rightarrow> string \<Rightarrow> string option \<Rightarrow> AppState \<Rightarrow> AppState \<times> Turn option" where
  "handleSend now text img st =
     (if (trim text = [] \<and> falsy_str img) \<or> isLoading st then (st, None)
      else handleSendMessage now text (if falsy_str img then None else img) st)"

text \<open>
  The other caller of \<^verbatim>\<open>handleSendMessage\<close>: a click on one of the four suggestions
  shown in an empty session sends its text, without an image.
\<close>

definition suggestions :: "string list" where
  "suggestions = [''Explain quantum physics'', ''Write a haiku about code'',
                  ''Debug this React component'', ''Plan a trip to Japan'']"

definition suggestion_click :: "(nat \<Rightarrow> nat) \<Rightarrow> nat \<Rightarrow> AppState \<Rightarrow> AppState \<times> Turn option" where
  "suggestion_click now n st =
     (if n < length suggestions then handleSendMessage now (suggestions ! n) None st
      else (st, None))"

text \<open>
  \<^verbatim>\<open>newMsgs.find(m => m.id === aiMsgId)\<close> followed by an assignment to a field of the
  message found: the first message with that id is replaced, nothing happens when
  there is none. The callbacks below work on the values of the messages. The code
  assigns to the message object itself; the store of message objects further down
  (\<open>onChunk_obj\<close>) follows it in that, and the two agree as long as no message object
  is referenced twice.
\<close>

fun update_found :: "string \<Rightarrow> (Message \<Rightarrow> Message) \<Rightarrow> Message list \<Rightarrow> Message list" where
  "update_found mid f [] = []"
| "update_found mid f (m # ms) =
     (if id_msg m = mid then f m # ms else m # update_found mid f ms)"

definition onChunk :: "Turn \<Rightarrow> string \<Rightarrow> AppState \<Rightarrow> AppState" where
  "onChunk turn chunk st =
     st \<lparr> sessions := map (\<lambda>s. if id_sess s = t_sessionId turn
              then s \<lparr> messages := update_found (t_aiMsgId turn)
                                     (\<lambda>target. target \<lparr> content := content target @ chunk \<rparr>)
                                     (messages s) \<rparr>
              else s) (sessions st) \<rparr>"

text \<open>\<^verbatim>\<open>onError\<close>; \<open>msg\<close> is \<^verbatim>\<open>err.message\<close>.\<close>

definition onError :: "Turn \<Rightarrow> string \<Rightarrow> AppState \<Rightarrow> AppState" where
  "onError turn msg st =
     st \<lparr> isLoading := False,
          sessions := map (\<lambda>s. if id_sess s = t_sessionId turn
              then s \<lparr> messages := update_found (t_aiMsgId turn)
                                     (\<lambda>target. target \<lparr> content := ''Error: '' @ msg,
                                                        isError := Some True \<rparr>)
                                     (messages s) \<rparr>
              else s) (sessions st) \<rparr>"

text \<open>
  \<^verbatim>\<open>onComplete\<close> in two parts, split at its \<^verbatim>\<open>await\<close>. The first part clears the
  indicator and returns the calls of \<^verbatim>\<open>aiService.generateTitle\<close> it makes, each with the
  text and the provider passed; the second part runs when the title has arrived.
\<close>

definition onComplete :: "Turn \<Rightarrow> string \<Rightarrow> AppState \<Rightarrow> AppState \<times> (string \<times> ModelProvider) list" where
  "onComplete turn fullText st =
     (st \<lparr> isLoading := False \<rparr>,
      if length (t_context turn) \<le> 1
      then [(t_text turn, activeModel (t_settings turn))] else [])"

definition onComplete_titled :: "Turn \<Rightarrow> string \<Rightarrow> AppState \<Rightarrow> AppState" where
  "onComplete_titled turn ttl st =
     st \<lparr> sessions := map (\<lambda>s. if id_sess s = t_sessionId turn then s \<lparr> title := ttl \<rparr> else s)
                          (sessions st) \<rparr>"

section \<open>Message objects\<close>

text \<open>
  A message is an object, and \<^verbatim>\<open>onChunk\<close> changes it in place
  (\<^verbatim>\<open>target.content += chunk\<close>): whoever holds the same object sees the change. Here
  the store is written out with that sharing. A message list is a list of references
  into a heap of message objects; an object literal makes a new object, whose reference
  is one that is not in use.
  Sessions and arrays are always copied by the code (\<^verbatim>\<open>{ ...s }\<close>, \<^verbatim>\<open>[...s.messages]\<close>),
  never changed in place, so they stay values.
\<close>

type_synonym addr = nat

record SessionObj =
  o_id :: string
  o_title :: string
  o_messages :: "addr list"
  o_createdAt :: nat
  o_updatedAt :: nat
  o_model :: ModelProvider

record ObjState =
  heap :: "addr \<Rightarrow> Message"
  o_sessions :: "SessionObj list"
  o_currentSessionId :: "string option"
  o_settings :: AppSettings
  o_isLoading :: bool

text \<open>
  All the references held by the sessions, a reference that is not among given ones,
  and the state of values a store of objects stands for.
\<close>

definition refs :: "SessionObj list \<Rightarrow> addr list" where
  "refs ss = concat (map o_messages ss)"

definition new_ref :: "addr list \<Rightarrow> addr" where
  "new_ref used = Suc (fold max used 0)"

definition session_value :: "(addr \<Rightarrow> Message) \<Rightarrow> SessionObj \<Rightarrow> ChatSession" where
  "session_value h s =
     \<lparr> id_sess = o_id s, title = o_title s, messages = map h (o_messages s),
       createdAt = o_createdAt s, updatedAt = o_updatedAt s, model = o_model s \<rparr>"

definition view :: "ObjState \<Rightarrow> AppState" where
  "view S =
     \<lparr> sessions = map (session_value (heap S)) (o_sessions S),
       currentSessionId = o_currentSessionId S,
       settings = o_settings S,
       isLoading = o_isLoading S \<rparr>"

text \<open>
  \<^verbatim>\<open>handleSendMessage\<close> on objects. The user message and the placeholder are one new
  object each; the two updates append the reference to every session with the selected
  id, so that two sessions of the same id come to hold the same two objects.
\<close>

definition handleSendMessage_obj ::
  "(nat \<Rightarrow> nat) \<Rightarrow> string \<Rightarrow> string option \<Rightarrow> ObjState \<Rightarrow> ObjState \<times> Turn option" where
  "handleSendMessage_obj now text img S =
     (case o_currentSessionId S of
        None \<Rightarrow> (S, None)
      | Some sid \<Rightarrow>
          if sid = [] then (S, None)
          else
            (let userMsg = \<lparr> id_msg = num_toString (now 0), role = User, content = text,
                              timestamp = now 1, image_msg = img, isError = None \<rparr>;
                 u = new_ref (refs (o_sessions S));
                 S1 = S \<lparr> heap := (heap S)(u := userMsg),
                          o_sessions := map (\<lambda>s. if o_id s = sid
                                   then s \<lparr> o_messages := o_messages s @ [u],
                                           o_updatedAt := now 2 \<rparr>
                                   else s) (o_sessions S) \<rparr>;
                 S2 = S1 \<lparr> o_isLoading := True \<rparr>;
                 aiMsgId = num_toString (now 3 + 1);
                 aiMsgPlaceholder = \<lparr> id_msg = aiMsgId, role = Model, content = [],
                                       timestamp = now 4, image_msg = None, isError = None \<rparr>;
                 p = new_ref (u # refs (o_sessions S2));
                 S3 = S2 \<lparr> heap := (heap S2)(p := aiMsgPlaceholder),
                           o_sessions := map (\<lambda>s. if o_id s = sid
                                   then s \<lparr> o_messages := o_messages s @ [p] \<rparr>
                                   else s) (o_sessions S2) \<rparr>;
                 sessionMessages = (case find (\<lambda>s. o_id s = sid) (o_sessions S) of
                                      None \<Rightarrow> [] | Some s \<Rightarrow> map (heap S) (o_messages s));
                 contextMessages = sessionMessages @ [userMsg]
             in (S3, Some \<lparr> t_sessionId = sid, t_aiMsgId = aiMsgId,
                             t_context = contextMessages, t_text = text,
                             t_settings = o_settings S \<rparr>)))"

text \<open>\<^verbatim>\<open>newMsgs.find(m => m.id === aiMsgId)\<close>: the first object of the list with that id.\<close>

fun find_obj :: "(addr \<Rightarrow> Message) \<Rightarrow> string \<Rightarrow> addr list \<Rightarrow> addr option" where
  "find_obj h mid [] = None"
| "find_obj h mid (a # as) = (if id_msg (h a) = mid then Some a else find_obj h mid as)"

text \<open>
  The function \<^verbatim>\<open>onChunk\<close> maps over the sessions, for one session: the heap after
  \<^verbatim>\<open>target.content += chunk\<close>. The session it returns is a copy with the same references.
\<close>

definition patch_session ::
  "string \<Rightarrow> string \<Rightarrow> string \<Rightarrow> SessionObj \<Rightarrow> (addr \<Rightarrow> Message) \<Rightarrow> (addr \<Rightarrow> Message)" where
  "patch_session sid mid chunk s h =
     (if o_id s = sid then
        (case find_obj h mid (o_messages s) of
           None \<Rightarrow> h
         | Some target \<Rightarrow> h(target := (h target) \<lparr> content := content (h target) @ chunk \<rparr>))
      else h)"

text \<open>\<^verbatim>\<open>prev.map\<close> visits the sessions in order, each visit working on the heap the last left.\<close>

fun chunk_updater ::
  "string \<Rightarrow> string \<Rightarrow> string \<Rightarrow> SessionObj list \<Rightarrow> (addr \<Rightarrow> Message) \<Rightarrow> (addr \<Rightarrow> Message)" where
  "chunk_updater sid mid chunk [] h = h"
| "chunk_updater sid mid chunk (s # ss) h =
     chunk_updater sid mid chunk ss (patch_session sid mid chunk s h)"

text \<open>
  \<^verbatim>\<open>onChunk\<close> on objects: one run of the updater passed to \<^verbatim>\<open>setSessions\<close>. An updater is
  run once for each call of \<^verbatim>\<open>setSessions\<close>, except under the double invocation of
  React's development strict mode, where this one would append its chunk twice.
\<close>

definition onChunk_obj :: "Turn \<Rightarrow> string \<Rightarrow> ObjState \<Rightarrow> ObjState" where
  "onChunk_obj turn chunk S =
     S \<lparr> heap := chunk_updater (t_sessionId turn) (t_aiMsgId turn) chunk
                    (o_sessions S) (heap S) \<rparr>"

section \<open>JSON values and \<^verbatim>\<open>JSON.parse\<close>\<close>

text \<open>
  The values \<^verbatim>\<open>JSON.parse\<close> returns. A number keeps its digits as written: its value
  is a double, which is not modelled. An object is the list of its members in the
  order of the text; a later member of the same name overrides an earlier one.
\<close>

datatype json =
    JNull
  | JBool bool
  | JNum string
  | JStr string
  | JArr "json list"
  | JObj "(string \<times> json) list"

text \<open>Folding a step that can fail over a list: the first failure ends the run.\<close>

fun run :: "('s \<Rightarrow> 'a \<Rightarrow> 's option) \<Rightarrow> 's \<Rightarrow> 'a list \<Rightarrow> 's option" where
  "run f s [] = Some s"
| "run f s (x # xs) = (case f s x of None \<Rightarrow> None | Some s' \<Rightarrow> run f s' xs)"

subsection \<open>Tokens\<close>

datatype token = TLBrace | TRBrace | TLBrack | TRBrack | TColon | TComma | TVal json

definition is_digit :: "char \<Rightarrow> bool" where
  "is_digit c = (c \<in> set ''0123456789'')"

definition is_letter :: "char \<Rightarrow> bool" where
  "is_letter c = (c \<in> set ''abcdefghijklmnopqrstuvwxyzABCDEFGHIJKLMNOPQRSTUVWXYZ'')"

text \<open>The characters a number or one of the literals \<^verbatim>\<open>true\<close>, \<^verbatim>\<open>false\<close>, \<^verbatim>\<open>null\<close> is made of.\<close>

definition is_word_char :: "char \<Rightarrow> bool" where
  "is_word_char c = (is_digit c \<or> is_letter c \<or> c \<in> set ''+-.'')"

text \<open>JSON white space: space, tab, line feed, carriage return.\<close>

definition is_json_ws :: "char \<Rightarrow> bool" where
  "is_json_ws c = ((of_char c :: nat) \<in> {32, 9, 10, 13})"

text \<open>One or more digits; the result is what follows them.\<close>

definition digits1 :: "string \<Rightarrow> string option" where
  "digits1 s = (case takeWhile is_digit s of [] \<Rightarrow> None | _ # _ \<Rightarrow> Some (dropWhile is_digit s))"

definition int_part :: "string \<Rightarrow> string option" where
  "int_part s =
     (case s of
        [] \<Rightarrow> None
      | c # cs \<Rightarrow> if c = CHR ''0'' then Some cs
                 else if is_digit c then Some (dropWhile is_digit cs) else None)"

definition frac_part :: "string \<Rightarrow> string option" where
  "frac_part s =
     (case s of
        [] \<Rightarrow> Some []
      | c # cs \<Rightarrow> if c = CHR ''.'' then digits1 cs else Some s)"

definition exp_part :: "string \<Rightarrow> bool" where
  "exp_part s =
     (case s of
        [] \<Rightarrow> True
      | c # cs \<Rightarrow>
          if c = CHR ''e'' \<or> c = CHR ''E'' then
            digits1 (case cs of
                       [] \<Rightarrow> []
                     | d # ds \<Rightarrow> if d = CHR ''+'' \<or> d = CHR ''-'' then ds else cs) = Some []
          else False)"

text \<open>
  The number grammar: an optional minus, an integer part without leading zero, an
  optional fraction, an optional exponent.
\<close>

definition valid_number :: "string \<Rightarrow> bool" where
  "valid_number s =
     (case int_part (case s of [] \<Rightarrow> [] | c # cs \<Rightarrow> if c = CHR ''-'' then cs else s) of
        None \<Rightarrow> False
      | Some s2 \<Rightarrow> (case frac_part s2 of None \<Rightarrow> False | Some s3 \<Rightarrow> exp_part s3))"

definition scalar :: "string \<Rightarrow> json option" where
  "scalar w =
     (if w = ''true'' then Some (JBool True)
      else if w = ''false'' then Some (JBool False)
      else if w = ''null'' then Some JNull
      else if valid_number w then Some (JNum w)
      else None)"

definition hex_val :: "char \<Rightarrow> nat option" where
  "hex_val c =
     (let n = (of_char c :: nat)
      in if 48 \<le> n \<and> n \<le> 57 then Some (n - 48)
         else if 65 \<le> n \<and> n \<le> 70 then Some (n - 55)
         else if 97 \<le> n \<and> n \<le> 102 then Some (n - 87)
         else None)"

text \<open>The character a one-letter escape stands for.\<close>

definition escape_char :: "char \<Rightarrow> char option" where
  "escape_char c =
     (if c = CHR 0x22 then Some (CHR 0x22)
      else if c = CHR 0x5C then Some (CHR 0x5C)
      else if c = CHR ''/'' then Some (CHR ''/'')
      else if c = CHR ''b'' then Some (CHR 0x08)
      else if c = CHR ''f'' then Some (CHR 0x0C)
      else if c = CHR ''n'' then Some (CHR 0x0A)
      else if c = CHR ''r'' then Some (CHR 0x0D)
      else if c = CHR ''t'' then Some (CHR 0x09)
      else None)"

text \<open>
  The scanner reads one character at a time. Its state says what it is inside of:
  nothing, a number or literal, a string, an escape, or the four hex digits of a
  \<^verbatim>\<open>\u\<close> escape (with the count and the value so far). Characters collected so far
  are kept in reverse, and so are the tokens.
\<close>

datatype lex_state =
    LIdle
  | LWord string
  | LStr string
  | LEsc string
  | LHex string nat nat

definition idle_step :: "token list \<Rightarrow> char \<Rightarrow> (lex_state \<times> token list) option" where
  "idle_step toks c =
     (if is_json_ws c then Some (LIdle, toks)
      else if c = CHR ''{'' then Some (LIdle, TLBrace # toks)
      else if c = CHR ''}'' then Some (LIdle, TRBrace # toks)
      else if c = CHR ''['' then Some (LIdle, TLBrack # toks)
      else if c = CHR '']'' then Some (LIdle, TRBrack # toks)
      else if c = CHR '':'' then Some (LIdle, TColon # toks)
      else if c = CHR '','' then Some (LIdle, TComma # toks)
      else if c = CHR 0x22 then Some (LStr [], toks)
      else if is_word_char c then Some (LWord [c], toks)
      else None)"

text \<open>
  A \<^verbatim>\<open>\u\<close> escape of a code unit from 256 on has no \<open>char\<close>; this scanner rejects it,
  where the runtime accepts it. Text of that kind is outside this model.
\<close>

definition lex_step :: "lex_state \<times> token list \<Rightarrow> char \<Rightarrow> (lex_state \<times> token list) option" where
  "lex_step st c =
     (case st of
        (LIdle, toks) \<Rightarrow> idle_step toks c
      | (LWord w, toks) \<Rightarrow>
          if is_word_char c then Some (LWord (c # w), toks)
          else (case scalar (rev w) of
                  None \<Rightarrow> None
                | Some v \<Rightarrow> idle_step (TVal v # toks) c)
      | (LStr s, toks) \<Rightarrow>
          if c = CHR 0x22 then Some (LIdle, TVal (JStr (rev s)) # toks)
          else if c = CHR 0x5C then Some (LEsc s, toks)
          else if (of_char c :: nat) < 32 then None
          else Some (LStr (c # s), toks)
      | (LEsc s, toks) \<Rightarrow>
          if c = CHR ''u'' then Some (LHex s 0 0, toks)
          else (case escape_char c of
                  None \<Rightarrow> None
                | Some e \<Rightarrow> Some (LStr (e # s), toks))
      | (LHex s k v, toks) \<Rightarrow>
          (case hex_val c of
             None \<Rightarrow> None
           | Some d \<Rightarrow>
               if k < 3 then Some (LHex s (k + 1) (16 * v + d), toks)
               else if 16 * v + d < 256 then Some (LStr (char_of (16 * v + d) # s), toks)
               else None))"

definition lex_end :: "lex_state \<times> token list \<Rightarrow> token list option" where
  "lex_end st =
     (case st of
        (LIdle, toks) \<Rightarrow> Some (rev toks)
      | (LWord w, toks) \<Rightarrow>
          (case scalar (rev w) of None \<Rightarrow> None | Some v \<Rightarrow> Some (rev (TVal v # toks)))
      | (LStr s, toks) \<Rightarrow> None
      | (LEsc s, toks) \<Rightarrow> None
      | (LHex s k v, toks) \<Rightarrow> None)"

subsection \<open>Values\<close>

text \<open>
  The parser keeps a stack of the arrays and objects that are open: an array with its
  elements so far, an object with its members so far and the name whose value is being
  read. Its mode says what may come next.
\<close>

datatype frame = FArr "json list" | FObj "(string \<times> json) list" string

datatype parse_mode =
    PValue
  | PFirstElem
  | PFirstKey
  | PKey "(string \<times> json) list"
  | PColon "(string \<times> json) list" string
  | PAfter json

definition value_tok :: "frame list \<Rightarrow> token \<Rightarrow> (parse_mode \<times> frame list) option" where
  "value_tok stk tok =
     (case tok of
        TVal v \<Rightarrow> Some (PAfter v, stk)
      | TLBrack \<Rightarrow> Some (PFirstElem, FArr [] # stk)
      | TLBrace \<Rightarrow> Some (PFirstKey, stk)
      | TRBrace \<Rightarrow> None
      | TRBrack \<Rightarrow> None
      | TColon \<Rightarrow> None
      | TComma \<Rightarrow> None)"

definition key_tok :: "token \<Rightarrow> string option" where
  "key_tok tok = (case tok of TVal (JStr k) \<Rightarrow> Some k | _ \<Rightarrow> None)"

definition after_value ::
  "json \<Rightarrow> frame list \<Rightarrow> token \<Rightarrow> (parse_mode \<times> frame list) option" where
  "after_value v stk tok =
     (case stk of
        [] \<Rightarrow> None
      | FArr xs # rest \<Rightarrow>
          (if tok = TComma then Some (PValue, FArr (xs @ [v]) # rest)
           else if tok = TRBrack then Some (PAfter (JArr (xs @ [v])), rest)
           else None)
      | FObj ms k # rest \<Rightarrow>
          (if tok = TComma then Some (PKey (ms @ [(k, v)]), rest)
           else if tok = TRBrace then Some (PAfter (JObj (ms @ [(k, v)])), rest)
           else None))"

definition parse_step ::
  "parse_mode \<times> frame list \<Rightarrow> token \<Rightarrow> (parse_mode \<times> frame list) option" where
  "parse_step st tok =
     (case st of
        (PValue, stk) \<Rightarrow> value_tok stk tok
      | (PFirstElem, stk) \<Rightarrow>
          (if tok = TRBrack then Some (PAfter (JArr []), tl stk) else value_tok stk tok)
      | (PFirstKey, stk) \<Rightarrow>
          (if tok = TRBrace then Some (PAfter (JObj []), stk)
           else (case key_tok tok of None \<Rightarrow> None | Some k \<Rightarrow> Some (PColon [] k, stk)))
      | (PKey ms, stk) \<Rightarrow>
          (case key_tok tok of None \<Rightarrow> None | Some k \<Rightarrow> Some (PColon ms k, stk))
      | (PColon ms k, stk) \<Rightarrow>
          (if tok = TColon then Some (PValue, FObj ms k # stk) else None)
      | (PAfter v, stk) \<Rightarrow> after_value v stk tok)"

definition parse_end :: "parse_mode \<times> frame list \<Rightarrow> json option" where
  "parse_end st = (case st of (PAfter v, []) \<Rightarrow> Some v | _ \<Rightarrow> None)"

text \<open>\<^verbatim>\<open>JSON.parse\<close>; \<open>None\<close> is the \<^verbatim>\<open>SyntaxError\<close> it throws.\<close>

definition JSON_parse :: "string \<Rightarrow> json option" where
  "JSON_parse s =
     Option.bind (run lex_step (LIdle, []) s) (\<lambda>ls.
     Option.bind (lex_end ls) (\<lambda>toks.
     Option.bind (run parse_step (PValue, []) toks) parse_end))"

subsection \<open>Reading a parsed value\<close>

text \<open>
  \<^verbatim>\<open>v.k\<close> on a value that is neither \<^verbatim>\<open>undefined\<close> nor \<^verbatim>\<open>null\<close>, for the names the
  code reads (\<^verbatim>\<open>choices\<close>, \<^verbatim>\<open>delta\<close>, \<^verbatim>\<open>content\<close>), which no built-in prototype
  defines: only an object can have them. \<open>None\<close> is \<^verbatim>\<open>undefined\<close>.
\<close>

definition js_member :: "string \<Rightarrow> json \<Rightarrow> json option" where
  "js_member k v = (case v of JObj ms \<Rightarrow> map_of (rev ms) k | _ \<Rightarrow> None)"

text \<open>
  \<^verbatim>\<open>v[0]\<close> on such a value: the first element of an array, the member \<^verbatim>\<open>"0"\<close> of an
  object, the first character of a string.
\<close>

definition js_index0 :: "json \<Rightarrow> json option" where
  "js_index0 v =
     (case v of
        JArr xs \<Rightarrow> (case xs of [] \<Rightarrow> None | x # _ \<Rightarrow> Some x)
      | JObj ms \<Rightarrow> map_of (rev ms) ''0''
      | JStr s \<Rightarrow> (case s of [] \<Rightarrow> None | c # _ \<Rightarrow> Some (JStr [c]))
      | _ \<Rightarrow> None)"

text \<open>\<^verbatim>\<open>x?.k\<close>: \<^verbatim>\<open>undefined\<close> when \<open>x\<close> is \<^verbatim>\<open>undefined\<close> or \<^verbatim>\<open>null\<close>.\<close>

definition opt_member :: "string \<Rightarrow> json option \<Rightarrow> json option" where
  "opt_member k x =
     (case x of None \<Rightarrow> None | Some JNull \<Rightarrow> None | Some v \<Rightarrow> js_member k v)"

text \<open>
  \<^verbatim>\<open>data.choices[0]?.delta?.content\<close>. The outer \<open>None\<close> is the \<^verbatim>\<open>TypeError\<close> of
  reading a property of \<^verbatim>\<open>null\<close> or \<^verbatim>\<open>undefined\<close>: \<^verbatim>\<open>data\<close> is \<^verbatim>\<open>null\<close>, or
  \<^verbatim>\<open>data.choices\<close> is missing or \<^verbatim>\<open>null\<close>.
\<close>

definition delta_content :: "json \<Rightarrow> json option option" where
  "delta_content data =
     (case data of
        JNull \<Rightarrow> None
      | _ \<Rightarrow>
          (case js_member ''choices'' data of
             None \<Rightarrow> None
           | Some JNull \<Rightarrow> None
           | Some choices \<Rightarrow>
               Some (opt_member ''content'' (opt_member ''delta'' (js_index0 choices)))))"

text \<open>
  Truthiness. A number is truthy unless it is zero; the model decides that on the
  digits before the exponent (a double would also round a tiny value to zero).
\<close>

definition nonzero_number :: "string \<Rightarrow> bool" where
  "nonzero_number n =
     list_ex (\<lambda>c. c \<in> set ''123456789'')
       (takeWhile (\<lambda>c. c \<noteq> CHR ''e'' \<and> c \<noteq> CHR ''E'') n)"

fun js_truthy :: "json \<Rightarrow> bool" where
  "js_truthy JNull = False"
| "js_truthy (JBool b) = b"
| "js_truthy (JNum n) = nonzero_number n"
| "js_truthy (JStr s) = (s \<noteq> [])"
| "js_truthy (JArr xs) = True"
| "js_truthy (JObj ms) = True"

text \<open>
  The text a value contributes to \<^verbatim>\<open>fullText += content\<close>. A string is itself. An
  array is its elements joined by commas, \<^verbatim>\<open>null\<close> counting as empty. A parsed object
  is \<^verbatim>\<open>[object Object]\<close>, unless it has a member \<^verbatim>\<open>toString\<close> of its own, which is not
  callable, and the conversion throws a \<^verbatim>\<open>TypeError\<close> (\<open>None\<close>). A number is printed
  by the model as it was written; the runtime prints the double it denotes.
\<close>

fun js_toString :: "json \<Rightarrow> string option" where
  "js_toString JNull = Some ''null''"
| "js_toString (JBool b) = Some (if b then ''true'' else ''false'')"
| "js_toString (JNum n) = Some n"
| "js_toString (JStr s) = Some s"
| "js_toString (JArr xs) =
     map_option (join (CHR '',''))
       (those (map (\<lambda>x. if x = JNull then Some [] else js_toString x) xs))"
| "js_toString (JObj ms) =
     (if ''toString'' \<in> fst ` set ms then None else Some ''[object Object]'')"

section \<open>The service (services/aiService.ts)\<close>

text \<open>
  A thrown value: an \<^verbatim>\<open>Error\<close> with its message, or something that is not an instance
  of \<^verbatim>\<open>Error\<close>.
\<close>

datatype thrown = ErrorObj string | NonError

text \<open>How a stream of reads ends: it is exhausted, or the next read is rejected.\<close>

datatype StreamEnd = StreamDone | StreamFailed thrown

subsection \<open>What a call does: the trace\<close>

text \<open>The request body of the REST adapter, before \<^verbatim>\<open>JSON.stringify\<close>.\<close>

datatype ContentPart = TextPart string | ImageUrlPart string

datatype ApiContent = Plain string | Parts "ContentPart list"

record ApiMessage =
  am_role :: string
  am_content :: ApiContent

record Payload =
  p_model :: string
  p_messages :: "ApiMessage list"
  p_stream :: bool

record HttpRequest =
  url :: string
  http_method :: string
  content_type :: string
  authorization :: string
  body :: Payload

text \<open>The parts the SDK adapter sends, and its request.\<close>

datatype GPart = InlineData string string | GText string

record GeminiRequest =
  g_model :: string
  g_systemInstruction :: string
  g_history :: "(Role \<times> GPart list) list"
  g_message :: "GPart list"

text \<open>
  A call of the service is observed as the list of what it did, in order: the network
  request it issued and the callbacks it invoked. The callbacks are the caller's; they
  are taken to return normally, as the three callbacks of \<^verbatim>\<open>App.tsx\<close> do. \<^verbatim>\<open>onError\<close>
  carries the message of the error.
\<close>

datatype event =
    NetRequest HttpRequest
  | SdkRequest GeminiRequest
  | OnChunk string
  | OnComplete string
  | OnError string

text \<open>
  An adapter returns how it ended (\<open>None\<close>: it returned; \<open>Some e\<close>: it threw \<open>e\<close>)
  and its trace.
\<close>

type_synonym outcome = "thrown option \<times> event list"

subsection \<open>The SDK adapter\<close>

definition is_regex_word :: "char \<Rightarrow> bool" where
  "is_regex_word c = (is_digit c \<or> is_letter c \<or> c = CHR ''_'')"

text \<open>\<^verbatim>\<open>base64.replace(/^data:image\/\w+;base64,/, "")\<close>.\<close>

definition strip_data_url :: "string \<Rightarrow> string" where
  "strip_data_url s =
     (if startsWith s ''data:image/'' then
        (let r = drop 11 s; r2 = dropWhile is_regex_word r
         in if takeWhile is_regex_word r \<noteq> [] \<and> startsWith r2 '';base64,''
            then drop 8 r2 else s)
      else s)"

definition base64ToPart :: "string \<Rightarrow> GPart" where
  "base64ToPart base64 = InlineData (strip_data_url base64) ''image/jpeg''"

definition message_parts :: "Message \<Rightarrow> GPart list" where
  "message_parts m =
     (case image_msg m of
        None \<Rightarrow> [GText (content m)]
      | Some img \<Rightarrow> if img = [] then [GText (content m)]
                    else [base64ToPart img, GText (content m)])"

text \<open>
  What the SDK does, as far as the adapter sees it: whether the client can be made,
  whether the chat can be created, and the stream of chunks the send returns, each
  with its \<^verbatim>\<open>text\<close> (which may be \<^verbatim>\<open>undefined\<close>).
\<close>

datatype SdkStream = SendRejected thrown | Chunks "string option list" StreamEnd

record GeminiSdk =
  client_error :: "thrown option"
  create_error :: "thrown option"
  sendMessageStream :: "GeminiRequest \<Rightarrow> SdkStream"

text \<open>The \<^verbatim>\<open>for await\<close> loop of \<^verbatim>\<open>streamGemini\<close>.\<close>

fun gemini_loop :: "string option list \<Rightarrow> StreamEnd \<Rightarrow> string \<Rightarrow> event list \<Rightarrow> outcome" where
  "gemini_loop [] fin fullText tr =
     (case fin of
        StreamDone \<Rightarrow> (None, tr @ [OnComplete fullText])
      | StreamFailed e \<Rightarrow> (Some e, tr))"
| "gemini_loop (c # cs) fin fullText tr =
     (case c of
        None \<Rightarrow> gemini_loop cs fin fullText tr
      | Some text \<Rightarrow>
          if text = [] then gemini_loop cs fin fullText tr
          else gemini_loop cs fin (fullText @ text) (tr @ [OnChunk text]))"

text \<open>
  \<^verbatim>\<open>streamGemini\<close>. With no message at all, \<^verbatim>\<open>lastMessage\<close> is \<^verbatim>\<open>undefined\<close> and reading
  its image throws a \<^verbatim>\<open>TypeError\<close>.
\<close>

definition streamGemini :: "Message list \<Rightarrow> string \<Rightarrow> GeminiSdk \<Rightarrow> outcome" where
  "streamGemini msgs sysInstruction sdk =
     (case client_error sdk of
        Some e \<Rightarrow> (Some e, [])
      | None \<Rightarrow>
          if msgs = [] then
            (Some (ErrorObj ''Cannot read properties of undefined (reading 'image')''), [])
          else
            (let historyMessages = butlast msgs;
                 lastMessage = last msgs;
                 history = map (\<lambda>m. (role m, message_parts m)) historyMessages;
                 newParts = message_parts lastMessage;
                 req = \<lparr> g_model = ''gemini-2.5-flash'',
                         g_systemInstruction = sysInstruction,
                         g_history = history, g_message = newParts \<rparr>
             in case create_error sdk of
                  Some e \<Rightarrow> (Some e, [])
                | None \<Rightarrow>
                    (case sendMessageStream sdk req of
                       SendRejected e \<Rightarrow> (Some e, [SdkRequest req])
                     | Chunks cs fin \<Rightarrow> gemini_loop cs fin [] [SdkRequest req])))"

subsection \<open>The REST adapter\<close>

definition role_name :: "Role \<Rightarrow> string" where
  "role_name r = (case r of User \<Rightarrow> ''user'' | Model \<Rightarrow> ''model'')"

definition provider_name :: "ModelProvider \<Rightarrow> string" where
  "provider_name p =
     (case p of Gemini \<Rightarrow> ''Gemini'' | OpenAI \<Rightarrow> ''OpenAI'' | DeepSeek \<Rightarrow> ''DeepSeek'')"

text \<open>One conversation message in the request body (\<^verbatim>\<open>m.image && provider === OpenAI\<close>).\<close>

definition api_message :: "ModelProvider \<Rightarrow> Message \<Rightarrow> ApiMessage" where
  "api_message provider m =
     (if \<not> falsy_str (image_msg m) \<and> provider = OpenAI
      then \<lparr> am_role = role_name (role m),
             am_content = Parts [TextPart (content m),
                                 ImageUrlPart (case image_msg m of None \<Rightarrow> [] | Some i \<Rightarrow> i)] \<rparr>
      else \<lparr> am_role = role_name (role m), am_content = Plain (content m) \<rparr>)"

definition payload :: "Message list \<Rightarrow> ModelProvider \<Rightarrow> string \<Rightarrow> Payload" where
  "payload msgs provider sysInstruction =
     \<lparr> p_model = (if provider = DeepSeek then ''deepseek-chat'' else ''gpt-4o-mini''),
       p_messages = \<lparr> am_role = ''system'', am_content = Plain sysInstruction \<rparr>
                    # map (api_message provider) msgs,
       p_stream = True \<rparr>"

definition request :: "Message list \<Rightarrow> string \<Rightarrow> ModelProvider \<Rightarrow> string \<Rightarrow> HttpRequest" where
  "request msgs apiKey provider sysInstruction =
     \<lparr> url = (if provider = DeepSeek then ''https://api.deepseek.com''
              else ''https://api.openai.com/v1'') @ ''/chat/completions'',
       http_method = ''POST'',
       content_type = ''application/json'',
       authorization = ''Bearer '' @ apiKey,
       body = payload msgs provider sysInstruction \<rparr>"

text \<open>
  What \<^verbatim>\<open>fetch\<close> gives: a rejection, or a response with its \<^verbatim>\<open>ok\<close> flag, its status,
  the outcome of \<^verbatim>\<open>response.text()\<close>, and its body, if any: the reads of the body's
  reader, each decoded on its own by \<^verbatim>\<open>decoder.decode(value)\<close>, and how they end.
\<close>

datatype FetchResult =
    FetchRejected thrown
  | HttpResponse bool nat "thrown + string" "(string list \<times> StreamEnd) option"

text \<open>
  \<^verbatim>\<open>chunk.split('\n').filter(line => line.trim() !== '')\<close>.
\<close>

definition sse_lines :: "string \<Rightarrow> string list" where
  "sse_lines chunk = filter (\<lambda>line. trim line \<noteq> []) (split_str (CHR 0x0A) chunk)"

text \<open>
  The \<^verbatim>\<open>try\<close> block run on a line that starts with \<^verbatim>\<open>data: \<close>: the text it appends
  and forwards, if any. A \<^verbatim>\<open>SyntaxError\<close> of \<^verbatim>\<open>JSON.parse\<close> and a \<^verbatim>\<open>TypeError\<close> of the
  accesses or of the conversion are caught, and nothing is emitted.
\<close>

definition data_line_chunk :: "string \<Rightarrow> string option" where
  "data_line_chunk line =
     (case JSON_parse (drop 6 line) of
        None \<Rightarrow> None
      | Some data \<Rightarrow>
          (case delta_content data of
             None \<Rightarrow> None
           | Some None \<Rightarrow> None
           | Some (Some c) \<Rightarrow> if js_truthy c then js_toString c else None))"

text \<open>
  The \<^verbatim>\<open>for\<close> loop over the lines of one read. The first component of the result
  tells whether the loop left the function through \<^verbatim>\<open>return callbacks.onComplete\<close>;
  the others are \<^verbatim>\<open>fullText\<close> and the trace.
\<close>

fun for_lines :: "string list \<Rightarrow> string \<Rightarrow> event list \<Rightarrow> bool \<times> string \<times> event list" where
  "for_lines [] fullText tr = (False, fullText, tr)"
| "for_lines (line # ls) fullText tr =
     (if includes_str line ''[DONE]'' then (True, fullText, tr @ [OnComplete fullText])
      else if startsWith line ''data: '' then
        (case data_line_chunk line of
           None \<Rightarrow> for_lines ls fullText tr
         | Some c \<Rightarrow> for_lines ls (fullText @ c) (tr @ [OnChunk c]))
      else for_lines ls fullText tr)"

text \<open>The \<^verbatim>\<open>while (true)\<close> loop over the reads.\<close>

fun read_loop :: "string list \<Rightarrow> StreamEnd \<Rightarrow> string \<Rightarrow> event list \<Rightarrow> outcome" where
  "read_loop [] fin fullText tr =
     (case fin of
        StreamDone \<Rightarrow> (None, tr @ [OnComplete fullText])
      | StreamFailed e \<Rightarrow> (Some e, tr))"
| "read_loop (v # vs) fin fullText tr =
     (case for_lines (sse_lines v) fullText tr of
        (True, fullText', tr') \<Rightarrow> (None, tr')
      | (False, fullText', tr') \<Rightarrow> read_loop vs fin fullText' tr')"

definition streamStandardOpenAI ::
  "Message list \<Rightarrow> string \<Rightarrow> ModelProvider \<Rightarrow> string \<Rightarrow> (HttpRequest \<Rightarrow> FetchResult) \<Rightarrow> outcome" where
  "streamStandardOpenAI msgs apiKey provider sysInstruction fetch =
     (let req = request msgs apiKey provider sysInstruction
      in case fetch req of
           FetchRejected e \<Rightarrow> (Some e, [NetRequest req])
         | HttpResponse ok status txt rbody \<Rightarrow>
             if \<not> ok then
               (case txt of
                  Inl e \<Rightarrow> (Some e, [NetRequest req])
                | Inr err \<Rightarrow>
                    (Some (ErrorObj (''API Error '' @ num_toString status @ '': '' @ err)),
                     [NetRequest req]))
             else
               (case rbody of
                  None \<Rightarrow> (Some (ErrorObj ''No response body''), [NetRequest req])
                | Some (reads, fin) \<Rightarrow> read_loop reads fin [] [NetRequest req]))"

subsection \<open>The entry point\<close>

text \<open>The network and the SDK, as one call of the service meets them.\<close>

record Env =
  sdk :: GeminiSdk
  fetch :: "HttpRequest \<Rightarrow> FetchResult"

text \<open>
  The \<^verbatim>\<open>catch\<close> clause of \<^verbatim>\<open>streamResponse\<close>: what the adapter threw becomes a call of
  \<^verbatim>\<open>onError\<close>, with \<^verbatim>\<open>new Error("Unknown error occurred")\<close> for a value that is not an
  \<^verbatim>\<open>Error\<close>.
\<close>

definition catch_error :: "outcome \<Rightarrow> outcome" where
  "catch_error r =
     (case r of
        (None, tr) \<Rightarrow> (None, tr)
      | (Some e, tr) \<Rightarrow>
          (None, tr @ [OnError (case e of ErrorObj m \<Rightarrow> m
                                | NonError \<Rightarrow> ''Unknown error occurred'')]))"

definition streamResponse :: "Message list \<Rightarrow> AppSettings \<Rightarrow> Env \<Rightarrow> outcome" where
  "streamResponse msgs stg env =
     (if activeModel stg = Gemini
      then catch_error (streamGemini msgs (systemInstruction stg) (sdk env))
      else
        (case key_for (apiKeys stg) (activeModel stg) of
           None \<Rightarrow>
             (None, [OnError (''Please provide an API key for ''
                               @ provider_name (activeModel stg) @ '' in Settings.'')])
         | Some apiKey \<Rightarrow>
             if apiKey = [] then
               (None, [OnError (''Please provide an API key for ''
                                 @ provider_name (activeModel stg) @ '' in Settings.'')])
             else catch_error (streamStandardOpenAI msgs apiKey (activeModel stg)
                                 (systemInstruction stg) (fetch env))))"

subsection \<open>The title generator\<close>

datatype GenerateResult = GenerateRejected thrown | GenerateText "string option"

text \<open>
  \<^verbatim>\<open>generateTitle\<close>. For the SDK provider the title is the trimmed text of one
  generation call, or \<^verbatim>\<open>New Chat\<close> when that text is missing or blank or anything
  throws; for the others it is made of the first four words of the message.
\<close>

definition generateTitle ::
  "AppSettings \<Rightarrow> string \<Rightarrow> ModelProvider \<Rightarrow> thrown option \<Rightarrow> GenerateResult \<Rightarrow> string" where
  "generateTitle stg firstMessage provider client gen =
     (if provider = Gemini then
        (case client of
           Some e \<Rightarrow> ''New Chat''
         | None \<Rightarrow>
             (case gen of
                GenerateRejected e \<Rightarrow> ''New Chat''
              | GenerateText None \<Rightarrow> ''New Chat''
              | GenerateText (Some t) \<Rightarrow> if trim t = [] then ''New Chat'' else trim t))
      else join (CHR '' '') (take 4 (split_str (CHR '' '') firstMessage)) @ ''...'')"

section \<open>Observing a trace\<close>

text \<open>
  The two callbacks that end a call, the texts of the chunks of a trace, and the
  handling of a trace by the three callbacks of a turn, in order (the title arrives
  later, through \<open>onComplete_titled\<close>).
\<close>

definition is_terminal :: "event \<Rightarrow> bool" where
  "is_terminal ev = (case ev of OnComplete t \<Rightarrow> True | OnError m \<Rightarrow> True | _ \<Rightarrow> False)"

text \<open>
  An adapter is well behaved when it either returns after exactly one terminal
  callback, its last action, or throws without any.
\<close>

definition adapter_ok :: "outcome \<Rightarrow> bool" where
  "adapter_ok r =
     (case r of
        (None, tr) \<Rightarrow> tr \<noteq> [] \<and> is_terminal (last tr) \<and> length (filter is_terminal tr) = 1
      | (Some e, tr) \<Rightarrow> filter is_terminal tr = [])"

definition chunk_texts :: "event list \<Rightarrow> string list" where
  "chunk_texts tr = concat (map (\<lambda>ev. case ev of OnChunk c \<Rightarrow> [c] | _ \<Rightarrow> []) tr)"

definition deliver :: "Turn \<Rightarrow> AppState \<Rightarrow> event \<Rightarrow> AppState" where
  "deliver turn st ev =
     (case ev of
        OnChunk c \<Rightarrow> onChunk turn c st
      | OnComplete t \<Rightarrow> fst (onComplete turn t st)
      | OnError m \<Rightarrow> onError turn m st
      | NetRequest r \<Rightarrow> st
      | SdkRequest r \<Rightarrow> st)"

section \<open>Sample data\<close>

definition ex_settings :: AppSettings where
  "ex_settings =
     \<lparr> apiKeys = \<lparr> key_Gemini = None, key_OpenAI = Some ''sk-demo'', key_DeepSeek = None \<rparr>,
       systemInstruction = ''Be brief.'',
       activeModel = OpenAI,
       profile = \<lparr> name = ''User'', avatarUrl = None \<rparr>,
       darkMode = True,
       enterToSend = True \<rparr>"

definition ex_user_msg :: Message where
  "ex_user_msg =
     \<lparr> id_msg = ''1000'', role = User, content = ''hello'', timestamp = 1000,
       image_msg = None, isError = None \<rparr>"

definition ex_placeholder :: Message where
  "ex_placeholder =
     \<lparr> id_msg = ''1001'', role = Model, content = [], timestamp = 1000,
       image_msg = None, isError = None \<rparr>"

text \<open>A fresh session, and the same session once \<^verbatim>\<open>hello\<close> has been sent at time 1000.\<close>

definition ex_fresh :: ChatSession where
  "ex_fresh =
     \<lparr> id_sess = ''42'', title = ''New Chat'', messages = [],
       createdAt = 42, updatedAt = 42, model = OpenAI \<rparr>"

definition ex_session :: ChatSession where
  "ex_session = ex_fresh \<lparr> messages := [ex_user_msg, ex_placeholder], updatedAt := 1000 \<rparr>"

text \<open>Another session, one of whose messages has the id of the placeholder above.\<close>

definition ex_other :: ChatSession where
  "ex_other =
     \<lparr> id_sess = ''7'', title = ''Earlier'',
       messages = [\<lparr> id_msg = ''1001'', role = Model, content = ''kept'', timestamp = 7,
                     image_msg = None, isError = None \<rparr>],
       createdAt = 7, updatedAt = 7, model = OpenAI \<rparr>"

definition ex_idle :: AppState where
  "ex_idle =
     \<lparr> sessions = [ex_fresh, ex_other], currentSessionId = Some ''42'',
       settings = ex_settings, isLoading = False \<rparr>"

text \<open>
  The idle state as a store of objects, and one in which a second session has the id
  of the first.
\<close>

definition ex_obj_idle :: ObjState where
  "ex_obj_idle =
     \<lparr> heap = (\<lambda>a. \<lparr> id_msg = ''1001'', role = Model, content = ''kept'', timestamp = 7,
                       image_msg = None, isError = None \<rparr>),
       o_sessions =
         [\<lparr> o_id = ''42'', o_title = ''New Chat'', o_messages = [],
             o_createdAt = 42, o_updatedAt = 42, o_model = OpenAI \<rparr>,
          \<lparr> o_id = ''7'', o_title = ''Earlier'', o_messages = [0],
             o_createdAt = 7, o_updatedAt = 7, o_model = OpenAI \<rparr>],
       o_currentSessionId = Some ''42'',
       o_settings = ex_settings,
       o_isLoading = False \<rparr>"

definition ex_obj_twins :: ObjState where
  "ex_obj_twins =
     ex_obj_idle \<lparr> o_sessions :=
         [\<lparr> o_id = ''42'', o_title = ''New Chat'', o_messages = [],
             o_createdAt = 42, o_updatedAt = 42, o_model = OpenAI \<rparr>,
          \<lparr> o_id = ''42'', o_title = ''New Chat'', o_messages = [],
             o_createdAt = 42, o_updatedAt = 42, o_model = OpenAI \<rparr>] \<rparr>"

text \<open>The turn is under way and the user has switched to the other session.\<close>

definition ex_state :: AppState where
  "ex_state =
     \<lparr> sessions = [ex_session, ex_other], currentSessionId = Some ''7'',
       settings = ex_settings, isLoading = True \<rparr>"

definition ex_turn :: Turn where
  "ex_turn =
     \<lparr> t_sessionId = ''42'', t_aiMsgId = ''1001'', t_context = [ex_user_msg],
       t_text = ''hello'', t_settings = ex_settings \<rparr>"

text \<open>A response body of two frames, read whole and read in two pieces.\<close>

definition ex_frame :: string where
  \<open>ex_frame = ''data: {"choices":[{"delta":{"content":"Hi"}}]}''\<close>

definition ex_body :: string where
  "ex_body = ex_frame @ [CHR 0x0A] @ ''data: [DONE]'' @ [CHR 0x0A]"

definition ex_split :: "string list" where
  "ex_split = [take 30 ex_body, drop 30 ex_body]"

definition ex_fetch :: "string list \<Rightarrow> HttpRequest \<Rightarrow> FetchResult" where
  "ex_fetch reads req = HttpResponse True 200 (Inr []) (Some (reads, StreamDone))"

definition ex_env :: "string list \<Rightarrow> Env" where
  "ex_env reads =
     \<lparr> sdk = \<lparr> client_error = None, create_error = None,
               sendMessageStream = (\<lambda>req. Chunks [] StreamDone) \<rparr>,
       fetch = ex_fetch reads \<rparr>"

text \<open>A frame whose text is the six characters of the end marker.\<close>

definition ex_marker_frame :: string where
  \<open>ex_marker_frame = ''data: {"choices":[{"delta":{"content":"[DONE]"}}]}''\<close>

section \<open>Properties of the session store\<close>

subsection \<open>Replacing the message found\<close>

lemma update_found_length [simp]: "length (update_found mid f ms) = length ms"
  by (induction ms) auto

lemma update_found_absent:
  "\<forall>m \<in> set ms. id_msg m \<noteq> mid \<Longrightarrow> update_found mid f ms = ms"
  by (induction ms) auto

lemma update_found_first:
  "j < length ms \<Longrightarrow> id_msg (ms ! j) = mid \<Longrightarrow> \<forall>k<j. id_msg (ms ! k) \<noteq> mid
   \<Longrightarrow> update_found mid f ms ! j = f (ms ! j)"
proof (induction ms arbitrary: j)
  case Nil
  then show ?case by simp
next
  case (Cons m ms)
  show ?case
  proof (cases j)
    case 0
    with Cons.prems show ?thesis by simp
  next
    case (Suc j')
    from Cons.prems Suc have "id_msg m \<noteq> mid" by auto
    moreover from Cons.prems Suc have "\<forall>k<j'. id_msg (ms ! k) \<noteq> mid" by auto
    ultimately show ?thesis using Cons.IH [of j'] Cons.prems Suc by simp
  qed
qed

lemma update_found_other:
  "j < length ms \<Longrightarrow> id_msg (ms ! j) \<noteq> mid \<or> (\<exists>k<j. id_msg (ms ! k) = mid)
   \<Longrightarrow> update_found mid f ms ! j = ms ! j"
proof (induction ms arbitrary: j)
  case Nil
  then show ?case by simp
next
  case (Cons m ms)
  show ?case
  proof (cases "id_msg m = mid")
    case True
    with Cons.prems show ?thesis by (cases j) auto
  next
    case False
    show ?thesis
    proof (cases j)
      case 0
      then show ?thesis using False by simp
    next
      case (Suc j')
      from Cons.prems Suc False
      have "id_msg (ms ! j') \<noteq> mid \<or> (\<exists>k<j'. id_msg (ms ! k) = mid)"
        by (auto simp: less_Suc_eq_0_disj)
      then show ?thesis using Cons.IH [of j'] Cons.prems Suc False by simp
    qed
  qed
qed

lemma update_found_twice:
  "\<forall>m. id_msg (f m) = id_msg m \<Longrightarrow>
   update_found mid g (update_found mid f ms) = update_found mid (\<lambda>m. g (f m)) ms"
  by (induction ms) auto

lemma update_found_same: "\<forall>m. f m = m \<Longrightarrow> update_found mid f ms = ms"
  by (induction ms) auto

lemma map_sessions_absent:
  "\<forall>s \<in> set ss. id_sess s \<noteq> sid \<Longrightarrow> map (\<lambda>s. if id_sess s = sid then g s else s) ss = ss"
  by (induction ss) auto

subsection \<open>Chunks\<close>

lemma map_sessions_same:
  "\<forall>s. g s = s \<Longrightarrow> map (\<lambda>s. if id_sess s = sid then g s else s) ss = ss"
  by (induction ss) auto

lemma onChunk_empty: "onChunk turn [] st = st"
proof -
  have "s \<lparr> messages := update_found mid
             (\<lambda>target. target \<lparr> content := content target @ [] \<rparr>) (messages s) \<rparr> = s"
    for s :: ChatSession and mid
    by (simp add: update_found_same)
  then show ?thesis by (simp add: onChunk_def map_sessions_same)
qed

lemma onChunk_append: "onChunk turn b (onChunk turn a st) = onChunk turn (a @ b) st"
  by (simp add: onChunk_def update_found_twice comp_def)

lemma onChunk_fold: "fold (onChunk turn) cs st = onChunk turn (concat cs) st"
proof (induction cs arbitrary: st)
  case Nil
  then show ?case by (simp add: onChunk_empty)
next
  case (Cons c cs)
  then show ?case by (simp add: onChunk_append)
qed

lemma onChunk_sessions_nth:
  "i < length (sessions st) \<Longrightarrow>
   sessions (onChunk turn c st) ! i =
     (if id_sess (sessions st ! i) = t_sessionId turn
      then (sessions st ! i) \<lparr> messages := update_found (t_aiMsgId turn)
             (\<lambda>target. target \<lparr> content := content target @ c \<rparr>) (messages (sessions st ! i)) \<rparr>
      else sessions st ! i)"
  by (simp add: onChunk_def)

text \<open>
  Claim C6. A chunk changes one message only. Let \<open>st'\<close> be the state after
  \<^verbatim>\<open>onChunk\<close> and \<open>s\<close>, \<open>s'\<close> the sessions at any position \<open>i\<close> before and after. The
  store keeps its length and the selected session; a session whose id is not the
  turn's stored session id is unchanged; in the others nothing but the message list
  changes, it keeps its length, and every message other than the first one with the
  stored placeholder id is unchanged. The selected session plays no part: with any
  other selection the handler gives the same store.
\<close>

theorem onChunk_frame:
  assumes "st' = onChunk turn chunk st"
    and "i < length (sessions st)"
    and "s = sessions st ! i" and "s' = sessions st' ! i"
  shows "length (sessions st') = length (sessions st)
       \<and> currentSessionId st' = currentSessionId st
       \<and> (id_sess s \<noteq> t_sessionId turn \<longrightarrow> s' = s)
       \<and> s' \<lparr> messages := messages s \<rparr> = s
       \<and> length (messages s') = length (messages s)
       \<and> (\<forall>j < length (messages s).
            id_msg (messages s ! j) \<noteq> t_aiMsgId turn
              \<or> (\<exists>k<j. id_msg (messages s ! k) = t_aiMsgId turn)
            \<longrightarrow> messages s' ! j = messages s ! j)
       \<and> onChunk turn chunk (st \<lparr> currentSessionId := selected \<rparr>)
           = st' \<lparr> currentSessionId := selected \<rparr>"
proof -
  have s': "s' = (if id_sess s = t_sessionId turn
                  then s \<lparr> messages := update_found (t_aiMsgId turn)
                         (\<lambda>target. target \<lparr> content := content target @ chunk \<rparr>) (messages s) \<rparr>
                  else s)"
    using assms by (simp add: onChunk_sessions_nth)
  have "length (sessions st') = length (sessions st)"
    and "currentSessionId st' = currentSessionId st"
    and "onChunk turn chunk (st \<lparr> currentSessionId := selected \<rparr>)
           = st' \<lparr> currentSessionId := selected \<rparr>"
    using assms(1) by (simp_all add: onChunk_def)
  moreover have "id_sess s \<noteq> t_sessionId turn \<longrightarrow> s' = s"
    and "s' \<lparr> messages := messages s \<rparr> = s"
    and "length (messages s') = length (messages s)"
    using s' by simp_all
  moreover have "\<forall>j < length (messages s).
            id_msg (messages s ! j) \<noteq> t_aiMsgId turn
              \<or> (\<exists>k<j. id_msg (messages s ! k) = t_aiMsgId turn)
            \<longrightarrow> messages s' ! j = messages s ! j"
    using s' by (simp add: update_found_other)
  ultimately show ?thesis by blast
qed

theorem onChunk_frame_witness:
  "sessions (onChunk ex_turn ''Hi'' ex_state) ! 1 = ex_other
   \<and> currentSessionId (onChunk ex_turn ''Hi'' ex_state) = Some ''7''
   \<and> messages (sessions (onChunk ex_turn ''Hi'' ex_state) ! 0) ! 0 = ex_user_msg"
  using onChunk_frame [of "onChunk ex_turn ''Hi'' ex_state" ex_turn "''Hi''" ex_state 1
      ex_other "sessions (onChunk ex_turn ''Hi'' ex_state) ! 1"]
    onChunk_frame [of "onChunk ex_turn ''Hi'' ex_state" ex_turn "''Hi''" ex_state 0
      ex_session "sessions (onChunk ex_turn ''Hi'' ex_state) ! 0"]
  by (simp add: ex_state_def ex_turn_def ex_other_def ex_session_def ex_fresh_def
      ex_user_msg_def ex_placeholder_def onChunk_def)

subsection \<open>A session that is gone\<close>

lemma deleteChat_removes:
  "num_toString (now 0) \<noteq> sid \<Longrightarrow> \<forall>s \<in> set (sessions (deleteChat now sid st)). id_sess s \<noteq> sid"
  by (auto simp: deleteChat_def createNewChat_def Let_def)

text \<open>
  Claim C5. When no session of the store has the turn's stored session id (the session
  was deleted while the stream was in flight), each callback of the turn leaves the
  store as it is: the chunk is dropped, the error text is dropped, the title is
  dropped, and no session or message is created. \<^verbatim>\<open>onError\<close> and \<^verbatim>\<open>onComplete\<close> still
  clear the awaiting-response indicator. The callbacks have no statement that can
  throw, so they are total functions on the state.
\<close>

theorem deleted_session_callbacks_dropped:
  assumes "\<forall>s \<in> set (sessions st). id_sess s \<noteq> t_sessionId turn"
  shows "onChunk turn chunk st = st
       \<and> onError turn msg st = st \<lparr> isLoading := False \<rparr>
       \<and> fst (onComplete turn fullText st) = st \<lparr> isLoading := False \<rparr>
       \<and> onComplete_titled turn ttl st = st"
  using assms
  by (simp add: onChunk_def onError_def onComplete_def onComplete_titled_def
      map_sessions_absent)

theorem deleted_session_callbacks_dropped_witness:
  "sessions (deleteChat (\<lambda>k. 2000) ''42'' ex_state) = [ex_other]
   \<and> sessions (onChunk ex_turn ''Hi'' (deleteChat (\<lambda>k. 2000) ''42'' ex_state)) = [ex_other]
   \<and> sessions (onError ex_turn ''boom'' (deleteChat (\<lambda>k. 2000) ''42'' ex_state)) = [ex_other]
   \<and> sessions (onComplete_titled ex_turn ''Greeting'' (deleteChat (\<lambda>k. 2000) ''42'' ex_state))
       = [ex_other]"
proof -
  have del: "sessions (deleteChat (\<lambda>k. 2000) ''42'' ex_state) = [ex_other]"
    by (simp add: deleteChat_def ex_state_def ex_session_def ex_fresh_def ex_other_def)
  have gone: "\<forall>s \<in> set (sessions (deleteChat (\<lambda>k. 2000) ''42'' ex_state)).
                id_sess s \<noteq> t_sessionId ex_turn"
    by (simp add: del ex_other_def ex_turn_def)
  show ?thesis
    using deleted_session_callbacks_dropped [OF gone] del by simp
qed

subsection \<open>Errors\<close>

text \<open>
  Claim C7. After \<^verbatim>\<open>onError\<close> the awaiting-response indicator is off. In a session
  with the turn's stored session id, the placeholder (the first message with the stored
  placeholder id, at position \<open>j\<close>) is still at its position, the message list has the
  length it had, and the placeholder's content is \<^verbatim>\<open>Error: \<close> followed by the message
  of the error and its error flag is true; its other fields are as before.
\<close>

theorem onError_marks_placeholder:
  assumes "i < length (sessions st)"
    and "id_sess (sessions st ! i) = t_sessionId turn"
    and "j < length (messages (sessions st ! i))"
    and "id_msg (messages (sessions st ! i) ! j) = t_aiMsgId turn"
    and "\<forall>k<j. id_msg (messages (sessions st ! i) ! k) \<noteq> t_aiMsgId turn"
  shows "isLoading (onError turn msg st) = False
       \<and> length (sessions (onError turn msg st)) = length (sessions st)
       \<and> length (messages (sessions (onError turn msg st) ! i))
           = length (messages (sessions st ! i))
       \<and> messages (sessions (onError turn msg st) ! i) ! j
           = (messages (sessions st ! i) ! j) \<lparr> content := ''Error: '' @ msg,
                                                  isError := Some True \<rparr>"
  using assms by (simp add: onError_def update_found_first)

theorem onError_marks_placeholder_witness:
  "isLoading (onError ex_turn ''boom'' ex_state) = False
   \<and> messages (sessions (onError ex_turn ''boom'' ex_state) ! 0) ! 1
       = ex_placeholder \<lparr> content := ''Error: boom'', isError := Some True \<rparr>
   \<and> length (messages (sessions (onError ex_turn ''boom'' ex_state) ! 0)) = 2"
  using onError_marks_placeholder [of 0 ex_state ex_turn 1 "''boom''"]
  by (simp add: ex_state_def ex_turn_def ex_session_def ex_fresh_def
      ex_user_msg_def ex_placeholder_def)

subsection \<open>Decimal digits\<close>

lemma num_toString_nonempty: "num_toString n \<noteq> []"
  by (subst num_toString.simps) simp

lemma digit_char_inj: "a < 10 \<Longrightarrow> b < 10 \<Longrightarrow> digit_char a = digit_char b \<Longrightarrow> a = b"
proof -
  assume a: "a < 10" and b: "b < 10" and eq: "digit_char a = digit_char b"
  have "of_char (digit_char a) = (48 + a) mod 256" "of_char (digit_char b) = (48 + b) mod 256"
    by (simp_all add: digit_char_def)
  with eq have "(48 + a) mod 256 = (48 + b) mod 256" by simp
  with a b show "a = b" by simp
qed

lemma num_toString_inj: "num_toString a = num_toString b \<Longrightarrow> a = b"
proof (induction a arbitrary: b rule: num_toString.induct)
  case (1 n)
  show ?case
  proof (cases "n < 10")
    case True
    then have n: "num_toString n = [digit_char n]" by (subst num_toString.simps) simp
    show ?thesis
    proof (cases "b < 10")
      case b: True
      then have "num_toString b = [digit_char b]" by (subst num_toString.simps) simp
      with n "1.prems" True b show ?thesis by (simp add: digit_char_inj)
    next
      case b: False
      then have "num_toString b = num_toString (b div 10) @ [digit_char (b mod 10)]"
        by (subst num_toString.simps) simp
      with n "1.prems" num_toString_nonempty [of "b div 10"] show ?thesis by simp
    qed
  next
    case False
    then have n: "num_toString n = num_toString (n div 10) @ [digit_char (n mod 10)]"
      by (subst num_toString.simps) simp
    show ?thesis
    proof (cases "b < 10")
      case b: True
      then have "num_toString b = [digit_char b]" by (subst num_toString.simps) simp
      with n "1.prems" num_toString_nonempty [of "n div 10"] show ?thesis by simp
    next
      case b: False
      then have "num_toString b = num_toString (b div 10) @ [digit_char (b mod 10)]"
        by (subst num_toString.simps) simp
      with n "1.prems" have eq: "num_toString (n div 10) = num_toString (b div 10)"
        and d: "digit_char (n mod 10) = digit_char (b mod 10)" by simp_all
      from "1.IH" [OF False eq] have "n div 10 = b div 10" .
      moreover from d have "n mod 10 = b mod 10" by (simp add: digit_char_inj)
      ultimately show ?thesis by (metis div_mult_mod_eq)
    qed
  qed
qed

subsection \<open>Sending\<close>

lemma trim_blank: "trim s = [] \<longleftrightarrow> list_all is_js_space s"
proof
  assume "list_all is_js_space s"
  then have d: "dropWhile is_js_space s = []"
    by (induction s) auto
  show "trim s = []" unfolding trim_def d by simp
next
  assume "trim s = []"
  then have all: "\<forall>c \<in> set (dropWhile is_js_space s). is_js_space c"
    by (simp add: trim_def dropWhile_eq_Nil_conv)
  have "dropWhile is_js_space s = []"
  proof (rule ccontr)
    assume ne: "dropWhile is_js_space s \<noteq> []"
    then have "\<not> is_js_space (hd (dropWhile is_js_space s))" by (rule hd_dropWhile)
    moreover from ne have "hd (dropWhile is_js_space s) \<in> set (dropWhile is_js_space s)"
      by simp
    ultimately show False using all by blast
  qed
  then show "list_all is_js_space s"
    by (induction s) (auto split: if_splits)
qed

lemma handleSendMessage_sessions:
  assumes "handleSendMessage now text img st = (st1, Some turn)"
  shows "sessions st1 =
           map (\<lambda>s. if id_sess s = t_sessionId turn
                    then s \<lparr> messages := messages s @
                           [\<lparr> id_msg = num_toString (now 0), role = User, content = text,
                              timestamp = now 1, image_msg = img, isError = None \<rparr>,
                            \<lparr> id_msg = t_aiMsgId turn, role = Model, content = [],
                              timestamp = now 4, image_msg = None, isError = None \<rparr>],
                           updatedAt := now 2 \<rparr>
                    else s) (sessions st)"
    and "t_aiMsgId turn = num_toString (now 3 + 1)"
    and "currentSessionId st = Some (t_sessionId turn)"
    and "t_context turn =
           (case find (\<lambda>s. id_sess s = t_sessionId turn) (sessions st) of
              None \<Rightarrow> [] | Some s \<Rightarrow> messages s)
           @ [\<lparr> id_msg = num_toString (now 0), role = User, content = text,
                timestamp = now 1, image_msg = img, isError = None \<rparr>]"
    and "t_text turn = text" and "t_settings turn = settings st"
  using assms
  by (auto simp: handleSendMessage_def Let_def comp_def split: option.splits if_splits
      intro!: map_cong)

lemma update_found_append:
  "\<forall>m \<in> set xs. id_msg m \<noteq> mid \<Longrightarrow> update_found mid f (xs @ ys) = xs @ update_found mid f ys"
  by (induction xs) auto

lemma find_map_sessions:
  "\<forall>s. id_sess (g s) = id_sess s \<Longrightarrow>
   find (\<lambda>s. id_sess s = sid) (map g ss) = map_option g (find (\<lambda>s. id_sess s = sid) ss)"
  by (induction ss) auto

lemma find_present:
  "\<exists>s \<in> set ss. id_sess s = sid \<Longrightarrow> \<exists>s. find (\<lambda>s. id_sess s = sid) ss = Some s"
  by (induction ss) auto

lemma chunks_fill_placeholder:
  assumes send: "handleSendMessage now text img st = (st1, Some turn)"
    and i: "i < length (sessions st)"
    and sid: "id_sess (sessions st ! i) = t_sessionId turn"
    and fresh: "\<forall>m \<in> set (messages (sessions st ! i)). id_msg m \<noteq> t_aiMsgId turn"
    and user: "num_toString (now 0) \<noteq> t_aiMsgId turn"
  shows "messages (sessions (fold (onChunk turn) cs st1) ! i) =
           messages (sessions st ! i)
           @ [\<lparr> id_msg = num_toString (now 0), role = User, content = text,
                timestamp = now 1, image_msg = img, isError = None \<rparr>,
              \<lparr> id_msg = t_aiMsgId turn, role = Model, content = concat cs,
                timestamp = now 4, image_msg = None, isError = None \<rparr>]"
proof -
  note facts = handleSendMessage_sessions [OF send]
  have len: "i < length (sessions st1)" using facts(1) i by simp
  have s1: "messages (sessions st1 ! i) =
              messages (sessions st ! i)
              @ [\<lparr> id_msg = num_toString (now 0), role = User, content = text,
                   timestamp = now 1, image_msg = img, isError = None \<rparr>,
                 \<lparr> id_msg = t_aiMsgId turn, role = Model, content = [],
                   timestamp = now 4, image_msg = None, isError = None \<rparr>]"
    and id1: "id_sess (sessions st1 ! i) = t_sessionId turn"
    using facts(1) i sid by simp_all
  have "messages (sessions (onChunk turn (concat cs) st1) ! i) =
          update_found (t_aiMsgId turn)
            (\<lambda>target. target \<lparr> content := content target @ concat cs \<rparr>)
            (messages (sessions st1 ! i))"
    using len id1 by (simp add: onChunk_sessions_nth)
  also have "\<dots> = messages (sessions st ! i)
           @ [\<lparr> id_msg = num_toString (now 0), role = User, content = text,
                timestamp = now 1, image_msg = img, isError = None \<rparr>,
              \<lparr> id_msg = t_aiMsgId turn, role = Model, content = concat cs,
                timestamp = now 4, image_msg = None, isError = None \<rparr>]"
    using fresh user by (simp add: s1 update_found_append)
  finally show ?thesis by (simp add: onChunk_fold)
qed

text \<open>
  Claim C9. A send request is \<^verbatim>\<open>ChatInput.handleSend\<close> followed by
  \<^verbatim>\<open>handleSendMessage\<close>. When no session is selected, or when the text is empty or all
  white space and no image is attached, the request changes nothing and starts no
  stream: the state is returned as it was, with no user message and no placeholder,
  and there is no turn. The guard on the selected session is in \<^verbatim>\<open>handleSendMessage\<close>
  itself, so it also holds for its other caller, the suggestions, whose texts are not
  blank.
\<close>

theorem send_rejected:
  assumes "currentSessionId st = None
           \<or> (list_all is_js_space text \<and> (img = None \<or> img = Some []))"
  shows "handleSend now text img st = (st, None)
       \<and> (currentSessionId st = None \<longrightarrow>
            handleSendMessage now text img st = (st, None)
            \<and> suggestion_click now n st = (st, None))
       \<and> list_all (\<lambda>q. \<not> list_all is_js_space q) suggestions"
proof -
  have "handleSend now text img st = (st, None)"
    using assms
    by (auto simp: handleSend_def handleSendMessage_def trim_blank falsy_str_def)
  moreover have "currentSessionId st = None \<longrightarrow>
            handleSendMessage now text img st = (st, None)
            \<and> suggestion_click now n st = (st, None)"
    by (simp add: handleSendMessage_def suggestion_click_def)
  moreover have "list_all (\<lambda>q. \<not> list_all is_js_space q) suggestions"
    by (simp add: suggestions_def is_js_space_def)
  ultimately show ?thesis by blast
qed

theorem send_rejected_witness:
  "handleSend (\<lambda>k. 1000) [CHR '' '', CHR 0x0A, CHR 0x09] None ex_idle = (ex_idle, None)
   \<and> handleSend (\<lambda>k. 1000) ''hello'' None (ex_idle \<lparr> currentSessionId := None \<rparr>)
       = (ex_idle \<lparr> currentSessionId := None \<rparr>, None)"
  using send_rejected [of ex_idle "[CHR '' '', CHR 0x0A, CHR 0x09]" None "\<lambda>k. 1000" 0]
    send_rejected [of "ex_idle \<lparr> currentSessionId := None \<rparr>" "''hello''" None "\<lambda>k. 1000" 0]
  by (simp add: is_js_space_def)

text \<open>
  Claim C8. Let a send start a turn. On completion the title generator is called once,
  with the text sent and the active provider, when the turn's network context has
  exactly one message, and not at all otherwise. The context is the messages the
  session had before the send plus the new user message, so it has one message exactly
  on the first turn of a session; a further send into the same session has a longer
  context and calls no title generator on completion. When the title arrives, the
  sessions with the turn's stored id get it and the others are unchanged; the store
  keeps its ids, so a session that is gone is not made again.
\<close>

theorem title_generator_first_turn_only:
  assumes "handleSendMessage now text img st = (st1, Some turn)"
  shows "(length (t_context turn) = 1 \<longrightarrow>
            snd (onComplete turn fullText st2) = [(text, activeModel (settings st))])
       \<and> (length (t_context turn) \<noteq> 1 \<longrightarrow> snd (onComplete turn fullText st2) = [])
       \<and> (\<forall>s. find (\<lambda>s. id_sess s = t_sessionId turn) (sessions st) = Some s \<longrightarrow>
                length (t_context turn) = length (messages s) + 1)
       \<and> (\<forall>now' text' img' st3 turn'.
            (\<exists>s \<in> set (sessions st). id_sess s = t_sessionId turn)
            \<and> handleSendMessage now' text' img' st1 = (st3, Some turn')
            \<longrightarrow> t_sessionId turn' = t_sessionId turn
                \<and> snd (onComplete turn' fullText st2) = [])
       \<and> map id_sess (sessions (onComplete_titled turn ttl st2)) = map id_sess (sessions st2)
       \<and> (\<forall>i < length (sessions st2).
            sessions (onComplete_titled turn ttl st2) ! i =
              (if id_sess (sessions st2 ! i) = t_sessionId turn
               then (sessions st2 ! i) \<lparr> title := ttl \<rparr> else sessions st2 ! i))"
proof -
  note facts = handleSendMessage_sessions [OF assms]
  have ctx: "t_context turn \<noteq> []" using facts(4) by simp
  have one: "length (t_context turn) = 1 \<longrightarrow>
            snd (onComplete turn fullText st2) = [(text, activeModel (settings st))]"
    using facts(5,6) by (simp add: onComplete_def)
  have more: "length (t_context turn) \<noteq> 1 \<longrightarrow> snd (onComplete turn fullText st2) = []"
    using ctx by (cases "t_context turn") (auto simp: onComplete_def)
  have len: "\<forall>s. find (\<lambda>s. id_sess s = t_sessionId turn) (sessions st) = Some s \<longrightarrow>
                length (t_context turn) = length (messages s) + 1"
    using facts(4) by simp
  have later: "t_sessionId turn' = t_sessionId turn \<and> snd (onComplete turn' fullText st2) = []"
    if ex: "\<exists>s \<in> set (sessions st). id_sess s = t_sessionId turn"
      and send': "handleSendMessage now' text' img' st1 = (st3, Some turn')"
    for now' text' img' st3 turn'
  proof -
    note facts' = handleSendMessage_sessions [OF send']
    have cur: "currentSessionId st1 = currentSessionId st"
      using assms
      by (auto simp: handleSendMessage_def Let_def split: option.splits if_splits)
    with facts(3) facts'(3) have same: "t_sessionId turn' = t_sessionId turn" by simp
    from find_present [OF ex] obtain s
      where s: "find (\<lambda>s. id_sess s = t_sessionId turn) (sessions st) = Some s" by blast
    then have sid: "id_sess s = t_sessionId turn" by (auto simp: find_Some_iff)
    define g :: "ChatSession \<Rightarrow> ChatSession" where "g = (\<lambda>s. if id_sess s = t_sessionId turn
                    then s \<lparr> messages := messages s @
                           [\<lparr> id_msg = num_toString (now 0), role = User, content = text,
                              timestamp = now 1, image_msg = img, isError = None \<rparr>,
                            \<lparr> id_msg = t_aiMsgId turn, role = Model, content = [],
                              timestamp = now 4, image_msg = None, isError = None \<rparr>],
                           updatedAt := now 2 \<rparr>
                    else s)"
    have g_id: "\<forall>s. id_sess (g s) = id_sess s" by (simp add: g_def)
    have "sessions st1 = map g (sessions st)" using facts(1) by (simp add: g_def)
    then have "find (\<lambda>s. id_sess s = t_sessionId turn) (sessions st1) = Some (g s)"
      using find_map_sessions [OF g_id, of "t_sessionId turn" "sessions st"] s by simp
    moreover have "messages (g s) \<noteq> []" using sid by (simp add: g_def)
    ultimately have "find (\<lambda>s. id_sess s = t_sessionId turn) (sessions st1) \<noteq> None
          \<and> messages (the (find (\<lambda>s. id_sess s = t_sessionId turn) (sessions st1))) \<noteq> []"
      by simp
    then have "2 \<le> length (t_context turn')"
      using facts'(4) same by (auto split: option.splits simp: Suc_le_eq)
    then show ?thesis using same by (simp add: onComplete_def)
  qed
  have ids: "map id_sess (sessions (onComplete_titled turn ttl st2)) = map id_sess (sessions st2)"
    by (simp add: onComplete_titled_def comp_def if_distrib cong: if_cong)
  have nth: "\<forall>i < length (sessions st2).
            sessions (onComplete_titled turn ttl st2) ! i =
              (if id_sess (sessions st2 ! i) = t_sessionId turn
               then (sessions st2 ! i) \<lparr> title := ttl \<rparr> else sessions st2 ! i)"
    by (simp add: onComplete_titled_def)
  from one more len later ids nth show ?thesis by blast
qed

theorem title_generator_first_turn_only_witness:
  "snd (onComplete ex_turn ''Hi'' ex_state) = [(''hello'', OpenAI)]
   \<and> map id_sess (sessions (onComplete_titled ex_turn ''Greeting'' ex_state)) = [''42'', ''7'']"
proof -
  have send: "handleSendMessage (\<lambda>k. 1000) ''hello'' None ex_idle
              = (ex_state \<lparr> currentSessionId := Some ''42'' \<rparr>, Some ex_turn)"
    by code_simp
  have ctx: "length (t_context ex_turn) = 1" "t_sessionId ex_turn = ''42''"
    by (simp_all add: ex_turn_def)
  have st: "activeModel (settings ex_idle) = OpenAI"
    "map id_sess (sessions ex_state) = [''42'', ''7'']"
    by (simp_all add: ex_idle_def ex_settings_def ex_state_def ex_session_def ex_fresh_def
        ex_other_def)
  show ?thesis
    using title_generator_first_turn_only [OF send, of "''Hi''" ex_state "''Greeting''"] ctx st
    by simp
qed

section \<open>Properties of the service\<close>

subsection \<open>Terminal callbacks\<close>

lemma for_lines_terminal:
  "for_lines ls fullText tr = (ret, fullText', tr') \<Longrightarrow>
   (ret \<longrightarrow> tr' \<noteq> [] \<and> is_terminal (last tr')
          \<and> length (filter is_terminal tr') = Suc (length (filter is_terminal tr)))
   \<and> (\<not> ret \<longrightarrow> length (filter is_terminal tr') = length (filter is_terminal tr))"
proof (induction ls arbitrary: fullText tr)
  case Nil
  then show ?case by auto
next
  case (Cons line ls)
  show ?case
  proof (cases "includes_str line ''[DONE]''")
    case True
    with Cons.prems show ?thesis by (auto simp: is_terminal_def)
  next
    case False
    show ?thesis
    proof (cases "startsWith line ''data: ''")
      case data: True
      show ?thesis
      proof (cases "data_line_chunk line")
        case None
        with Cons.prems False data have "for_lines ls fullText tr = (ret, fullText', tr')"
          by simp
        from Cons.IH [OF this] show ?thesis .
      next
        case (Some c)
        with Cons.prems False data
        have "for_lines ls (fullText @ c) (tr @ [OnChunk c]) = (ret, fullText', tr')"
          by simp
        from Cons.IH [OF this] show ?thesis by (simp add: is_terminal_def)
      qed
    next
      case nodata: False
      with Cons.prems False have "for_lines ls fullText tr = (ret, fullText', tr')"
        by simp
      from Cons.IH [OF this] show ?thesis .
    qed
  qed
qed

lemma read_loop_terminal:
  "read_loop vs fin fullText tr = (r, tr') \<Longrightarrow>
   (r = None \<longrightarrow> tr' \<noteq> [] \<and> is_terminal (last tr')
          \<and> length (filter is_terminal tr') = Suc (length (filter is_terminal tr)))
   \<and> (\<forall>e. r = Some e \<longrightarrow> length (filter is_terminal tr') = length (filter is_terminal tr))"
proof (induction vs arbitrary: fullText tr)
  case Nil
  then show ?case by (cases fin) (auto simp: is_terminal_def)
next
  case (Cons v vs)
  obtain ret ft1 tr1 where fl: "for_lines (sse_lines v) fullText tr = (ret, ft1, tr1)"
    by (cases "for_lines (sse_lines v) fullText tr") auto
  note inner = for_lines_terminal [OF fl]
  show ?case
  proof (cases ret)
    case True
    with Cons.prems fl have "r = None" "tr' = tr1" by simp_all
    with inner True show ?thesis by simp
  next
    case False
    with Cons.prems fl have "read_loop vs fin ft1 tr1 = (r, tr')" by simp
    from Cons.IH [OF this] inner False show ?thesis by simp
  qed
qed

lemma gemini_loop_terminal:
  "gemini_loop cs fin fullText tr = (r, tr') \<Longrightarrow>
   (r = None \<longrightarrow> tr' \<noteq> [] \<and> is_terminal (last tr')
          \<and> length (filter is_terminal tr') = Suc (length (filter is_terminal tr)))
   \<and> (\<forall>e. r = Some e \<longrightarrow> length (filter is_terminal tr') = length (filter is_terminal tr))"
proof (induction cs arbitrary: fullText tr)
  case Nil
  then show ?case by (cases fin) (auto simp: is_terminal_def)
next
  case (Cons c cs)
  show ?case
  proof (cases c)
    case None
    with Cons.prems have "gemini_loop cs fin fullText tr = (r, tr')" by simp
    from Cons.IH [OF this] show ?thesis .
  next
    case (Some t)
    show ?thesis
    proof (cases "t = []")
      case True
      with Cons.prems Some have "gemini_loop cs fin fullText tr = (r, tr')" by simp
      from Cons.IH [OF this] show ?thesis .
    next
      case False
      with Cons.prems Some
      have "gemini_loop cs fin (fullText @ t) (tr @ [OnChunk t]) = (r, tr')" by simp
      from Cons.IH [OF this] show ?thesis by (simp add: is_terminal_def)
    qed
  qed
qed

lemma loop_adapter_ok:
  assumes "(r = None \<longrightarrow> tr' \<noteq> [] \<and> is_terminal (last tr')
              \<and> length (filter is_terminal tr') = Suc (length (filter is_terminal tr)))
           \<and> (\<forall>e. r = Some e \<longrightarrow> length (filter is_terminal tr') = length (filter is_terminal tr))"
    and "filter is_terminal tr = []"
  shows "adapter_ok (r, tr')"
  using assms by (cases r) (simp_all add: adapter_ok_def)

lemma streamGemini_ok: "adapter_ok (streamGemini msgs sysInstruction gsdk)"
proof (cases "client_error gsdk")
  case (Some e)
  then show ?thesis by (simp add: streamGemini_def adapter_ok_def)
next
  case None
  show ?thesis
  proof (cases "msgs = []")
    case True
    with None show ?thesis by (simp add: streamGemini_def adapter_ok_def)
  next
    case False
    show ?thesis
    proof (cases "create_error gsdk")
      case (Some e)
      with None False show ?thesis by (simp add: streamGemini_def adapter_ok_def Let_def)
    next
      case ok: None
      define req where "req = \<lparr> g_model = ''gemini-2.5-flash'',
                         g_systemInstruction = sysInstruction,
                         g_history = map (\<lambda>m. (role m, message_parts m)) (butlast msgs),
                         g_message = message_parts (last msgs) \<rparr>"
      show ?thesis
      proof (cases "sendMessageStream gsdk req")
        case (SendRejected e)
        with None False ok show ?thesis
          by (simp add: streamGemini_def Let_def req_def adapter_ok_def is_terminal_def)
      next
        case (Chunks cs fin)
        obtain r tr' where loop: "gemini_loop cs fin [] [SdkRequest req] = (r, tr')"
          by (cases "gemini_loop cs fin [] [SdkRequest req]") auto
        have "adapter_ok (r, tr')"
          by (rule loop_adapter_ok [OF gemini_loop_terminal [OF loop]])
             (simp add: is_terminal_def)
        with None False ok Chunks loop show ?thesis
          by (simp add: streamGemini_def Let_def req_def)
      qed
    qed
  qed
qed

lemma streamStandardOpenAI_ok:
  "adapter_ok (streamStandardOpenAI msgs apiKey provider sysInstruction fetcher)"
proof (cases "fetcher (request msgs apiKey provider sysInstruction)")
  case (FetchRejected e)
  then show ?thesis
    by (simp add: streamStandardOpenAI_def Let_def adapter_ok_def is_terminal_def)
next
  case (HttpResponse ok status tx rbody)
  show ?thesis
  proof (cases ok)
    case False
    with HttpResponse show ?thesis
      by (cases tx)
         (simp_all add: streamStandardOpenAI_def Let_def adapter_ok_def is_terminal_def)
  next
    case True
    show ?thesis
    proof (cases rbody)
      case None
      with HttpResponse True show ?thesis
        by (simp add: streamStandardOpenAI_def Let_def adapter_ok_def is_terminal_def)
    next
      case (Some b)
      obtain vs fin where b: "b = (vs, fin)" by (cases b) auto
      obtain r tr' where loop: "read_loop vs fin []
              [NetRequest (request msgs apiKey provider sysInstruction)] = (r, tr')"
        by (cases "read_loop vs fin []
              [NetRequest (request msgs apiKey provider sysInstruction)]") auto
      have "adapter_ok (r, tr')"
        by (rule loop_adapter_ok [OF read_loop_terminal [OF loop]])
           (simp add: is_terminal_def)
      with HttpResponse True Some b loop show ?thesis
        by (simp add: streamStandardOpenAI_def Let_def)
    qed
  qed
qed

lemma catch_error_terminal:
  assumes "adapter_ok r"
  shows "fst (catch_error r) = None
       \<and> snd (catch_error r) \<noteq> []
       \<and> is_terminal (last (snd (catch_error r)))
       \<and> length (filter is_terminal (snd (catch_error r))) = 1"
proof (cases r)
  case (Pair t tr)
  with assms show ?thesis
    by (cases t) (simp_all add: catch_error_def adapter_ok_def is_terminal_def)
qed

text \<open>
  Claim C2. Every call of \<^verbatim>\<open>streamResponse\<close> returns: it never throws, whatever the
  adapter does. Its trace has exactly one terminal callback, \<^verbatim>\<open>onComplete\<close> or
  \<^verbatim>\<open>onError\<close>, and that callback is the last thing the call does, so that everything
  before it is the request and chunks. Whatever an adapter throws is turned into
  \<^verbatim>\<open>onError\<close>, after the trace the adapter had produced: with the message of the error
  when an \<^verbatim>\<open>Error\<close> was thrown, and with \<^verbatim>\<open>Unknown error occurred\<close> when the value thrown
  is not an \<^verbatim>\<open>Error\<close>. When the adapter returns, the trace of the call is the adapter's.
\<close>

theorem streamResponse_one_terminal:
  "fst (streamResponse msgs stg env) = None
   \<and> snd (streamResponse msgs stg env) \<noteq> []
   \<and> is_terminal (last (snd (streamResponse msgs stg env)))
   \<and> length (filter is_terminal (snd (streamResponse msgs stg env))) = 1
   \<and> (activeModel stg = Gemini
        \<and> streamGemini msgs (systemInstruction stg) (sdk env) = (Some e, tr)
        \<longrightarrow> streamResponse msgs stg env =
              (None, tr @ [OnError (case e of ErrorObj m \<Rightarrow> m
                                    | NonError \<Rightarrow> ''Unknown error occurred'')]))
   \<and> (activeModel stg \<noteq> Gemini \<and> key_for (apiKeys stg) (activeModel stg) = Some k \<and> k \<noteq> []
        \<and> streamStandardOpenAI msgs k (activeModel stg) (systemInstruction stg) (fetch env)
            = (Some e, tr)
        \<longrightarrow> streamResponse msgs stg env =
              (None, tr @ [OnError (case e of ErrorObj m \<Rightarrow> m
                                    | NonError \<Rightarrow> ''Unknown error occurred'')]))
   \<and> (activeModel stg = Gemini
        \<and> streamGemini msgs (systemInstruction stg) (sdk env) = (None, tr)
        \<longrightarrow> streamResponse msgs stg env = (None, tr))
   \<and> (activeModel stg \<noteq> Gemini \<and> key_for (apiKeys stg) (activeModel stg) = Some k \<and> k \<noteq> []
        \<and> streamStandardOpenAI msgs k (activeModel stg) (systemInstruction stg) (fetch env)
            = (None, tr)
        \<longrightarrow> streamResponse msgs stg env = (None, tr))"
proof -
  have shape: "fst (streamResponse msgs stg env) = None
   \<and> snd (streamResponse msgs stg env) \<noteq> []
   \<and> is_terminal (last (snd (streamResponse msgs stg env)))
   \<and> length (filter is_terminal (snd (streamResponse msgs stg env))) = 1"
  proof (cases "activeModel stg = Gemini")
    case True
    with catch_error_terminal [OF streamGemini_ok] show ?thesis
      by (simp add: streamResponse_def)
  next
    case False
    show ?thesis
    proof (cases "key_for (apiKeys stg) (activeModel stg)")
      case None
      with False show ?thesis by (simp add: streamResponse_def is_terminal_def)
    next
      case (Some apiKey)
      show ?thesis
      proof (cases "apiKey = []")
        case True
        with False Some show ?thesis by (simp add: streamResponse_def is_terminal_def)
      next
        case key: False
        with catch_error_terminal [OF streamStandardOpenAI_ok] False Some
        show ?thesis by (simp add: streamResponse_def)
      qed
    qed
  qed
  have caught: "activeModel stg = Gemini
        \<and> streamGemini msgs (systemInstruction stg) (sdk env) = (Some e, tr)
        \<longrightarrow> streamResponse msgs stg env =
              (None, tr @ [OnError (case e of ErrorObj m \<Rightarrow> m
                                    | NonError \<Rightarrow> ''Unknown error occurred'')])"
    "activeModel stg \<noteq> Gemini \<and> key_for (apiKeys stg) (activeModel stg) = Some k \<and> k \<noteq> []
        \<and> streamStandardOpenAI msgs k (activeModel stg) (systemInstruction stg) (fetch env)
            = (Some e, tr)
        \<longrightarrow> streamResponse msgs stg env =
              (None, tr @ [OnError (case e of ErrorObj m \<Rightarrow> m
                                    | NonError \<Rightarrow> ''Unknown error occurred'')])"
    by (simp_all add: streamResponse_def catch_error_def)
  have returned: "activeModel stg = Gemini
        \<and> streamGemini msgs (systemInstruction stg) (sdk env) = (None, tr)
        \<longrightarrow> streamResponse msgs stg env = (None, tr)"
    "activeModel stg \<noteq> Gemini \<and> key_for (apiKeys stg) (activeModel stg) = Some k \<and> k \<noteq> []
        \<and> streamStandardOpenAI msgs k (activeModel stg) (systemInstruction stg) (fetch env)
            = (None, tr)
        \<longrightarrow> streamResponse msgs stg env = (None, tr)"
    by (simp_all add: streamResponse_def catch_error_def)
  from shape caught returned show ?thesis by blast
qed

theorem streamResponse_one_terminal_witness:
  "filter is_terminal (snd (streamResponse [ex_user_msg] ex_settings (ex_env [ex_body])))
     = [OnComplete ''Hi'']
   \<and> filter is_terminal (snd (streamResponse [ex_user_msg] ex_settings
        (ex_env [] \<lparr> fetch := \<lambda>req. FetchRejected (ErrorObj ''Failed to fetch'') \<rparr>)))
     = [OnError ''Failed to fetch'']
   \<and> filter is_terminal (snd (streamResponse [ex_user_msg] ex_settings
        (ex_env [] \<lparr> fetch := \<lambda>req. FetchRejected NonError \<rparr>)))
     = [OnError ''Unknown error occurred'']"
proof -
  have ok: "filter is_terminal (snd (streamResponse [ex_user_msg] ex_settings (ex_env [ex_body])))
     = [OnComplete ''Hi'']"
    by code_simp
  have key: "activeModel ex_settings \<noteq> Gemini"
    "key_for (apiKeys ex_settings) (activeModel ex_settings) = Some ''sk-demo''"
    by (simp_all add: ex_settings_def key_for_def)
  have thrown: "streamStandardOpenAI [ex_user_msg] ''sk-demo'' (activeModel ex_settings)
      (systemInstruction ex_settings)
      (fetch (ex_env [] \<lparr> fetch := \<lambda>req. FetchRejected t \<rparr>))
      = (Some t,
         [NetRequest (request [ex_user_msg] ''sk-demo'' (activeModel ex_settings)
                        (systemInstruction ex_settings))])" for t
    by (simp add: streamStandardOpenAI_def)
  have error: "filter is_terminal (snd (streamResponse [ex_user_msg] ex_settings
        (ex_env [] \<lparr> fetch := \<lambda>req. FetchRejected (ErrorObj ''Failed to fetch'') \<rparr>)))
     = [OnError ''Failed to fetch'']"
    using streamResponse_one_terminal [of "[ex_user_msg]" ex_settings
        "ex_env [] \<lparr> fetch := \<lambda>req. FetchRejected (ErrorObj ''Failed to fetch'') \<rparr>"
        "ErrorObj ''Failed to fetch''" _ "''sk-demo''"]
      key thrown [of "ErrorObj ''Failed to fetch''"]
    by (simp add: is_terminal_def)
  have other: "filter is_terminal (snd (streamResponse [ex_user_msg] ex_settings
        (ex_env [] \<lparr> fetch := \<lambda>req. FetchRejected NonError \<rparr>)))
     = [OnError ''Unknown error occurred'']"
    using streamResponse_one_terminal [of "[ex_user_msg]" ex_settings
        "ex_env [] \<lparr> fetch := \<lambda>req. FetchRejected NonError \<rparr>"
        NonError _ "''sk-demo''"]
      key thrown [of NonError]
    by (simp add: is_terminal_def)
  from ok error other show ?thesis by simp
qed

text \<open>
  Claim C3. With OpenAI or DeepSeek as the active provider and its key missing or
  empty, the whole trace of \<^verbatim>\<open>streamResponse\<close> is one call of \<^verbatim>\<open>onError\<close>, asking for
  the key: there is no chunk and no network request, whatever the network would answer.
\<close>

theorem missing_key_fails_before_fetch:
  assumes "activeModel stg = OpenAI \<or> activeModel stg = DeepSeek"
    and "key_for (apiKeys stg) (activeModel stg) = None
         \<or> key_for (apiKeys stg) (activeModel stg) = Some []"
  shows "streamResponse msgs stg env =
           (None, [OnError (''Please provide an API key for ''
                            @ provider_name (activeModel stg) @ '' in Settings.'')])"
  using assms by (auto simp: streamResponse_def)

theorem missing_key_fails_before_fetch_witness:
  "streamResponse [ex_user_msg] (ex_settings \<lparr> activeModel := DeepSeek \<rparr>) (ex_env [ex_body])
     = (None, [OnError ''Please provide an API key for DeepSeek in Settings.''])"
  using missing_key_fails_before_fetch
    [of "ex_settings \<lparr> activeModel := DeepSeek \<rparr>" "[ex_user_msg]" "ex_env [ex_body]"]
  by (simp add: ex_settings_def key_for_def provider_name_def)

subsection \<open>The request body\<close>

lemma for_lines_extends: "\<exists>ext. snd (snd (for_lines ls ft tr)) = tr @ ext"
proof (induction ls arbitrary: ft tr)
  case Nil
  then show ?case by simp
next
  case (Cons line ls)
  from Cons.IH [of ft tr] obtain e1 where e1: "snd (snd (for_lines ls ft tr)) = tr @ e1"
    by blast
  have "\<exists>ext. snd (snd (for_lines ls (ft @ c) (tr @ [OnChunk c]))) = tr @ ext" for c
    using Cons.IH [of "ft @ c" "tr @ [OnChunk c]"] by auto
  with e1 show ?case by (auto split: option.splits)
qed

lemma read_loop_extends: "\<exists>ext. snd (read_loop vs fin ft tr) = tr @ ext"
proof (induction vs arbitrary: ft tr)
  case Nil
  then show ?case by (cases fin) simp_all
next
  case (Cons v vs)
  obtain ret ft1 tr1 where fl: "for_lines (sse_lines v) ft tr = (ret, ft1, tr1)"
    by (cases "for_lines (sse_lines v) ft tr") auto
  with for_lines_extends [of "sse_lines v" ft tr] obtain e1 where e1: "tr1 = tr @ e1"
    by auto
  from Cons.IH [of ft1 tr1] obtain e2 where "snd (read_loop vs fin ft1 tr1) = tr1 @ e2"
    by blast
  with fl e1 show ?case by (cases ret) auto
qed

lemma streamStandardOpenAI_request_first:
  "\<exists>rest. snd (streamStandardOpenAI msgs apiKey provider sysInstruction fetcher)
           = NetRequest (request msgs apiKey provider sysInstruction) # rest"
  using read_loop_extends [of _ _ "[]" "[NetRequest (request msgs apiKey provider sysInstruction)]"]
  by (auto simp: streamStandardOpenAI_def Let_def
      split: FetchResult.splits sum.splits option.splits)

text \<open>
  Claim C10. For DeepSeek every conversation message is sent as its role and its text,
  whether or not it carries an image: the body's messages are the system message
  followed by one plain message for each message of the conversation, and this is the
  body of the request the adapter issues first. A message with an image is sent as a
  text part and an image part by the OpenAI variant only.
\<close>

theorem deepseek_omits_image:
  "p_messages (payload msgs DeepSeek sysInstruction) =
     \<lparr> am_role = ''system'', am_content = Plain sysInstruction \<rparr>
     # map (\<lambda>m. \<lparr> am_role = role_name (role m), am_content = Plain (content m) \<rparr>) msgs
   \<and> (\<exists>rest. snd (streamStandardOpenAI msgs apiKey DeepSeek sysInstruction fetcher)
         = NetRequest (request msgs apiKey DeepSeek sysInstruction) # rest)
   \<and> body (request msgs apiKey DeepSeek sysInstruction) = payload msgs DeepSeek sysInstruction
   \<and> (image_msg m = Some img \<and> img \<noteq> [] \<longrightarrow>
        am_content (api_message DeepSeek m) = Plain (content m)
        \<and> am_content (api_message OpenAI m) = Parts [TextPart (content m), ImageUrlPart img])"
  using streamStandardOpenAI_request_first [of msgs apiKey DeepSeek sysInstruction fetcher]
  by (simp add: payload_def request_def api_message_def falsy_str_def)

theorem deepseek_omits_image_witness:
  "p_messages (payload [ex_user_msg \<lparr> image_msg := Some ''data:image/png;base64,AAAA'' \<rparr>]
                 DeepSeek ''Be brief.'')
     = [\<lparr> am_role = ''system'', am_content = Plain ''Be brief.'' \<rparr>,
        \<lparr> am_role = ''user'', am_content = Plain ''hello'' \<rparr>]
   \<and> am_content (api_message OpenAI
        (ex_user_msg \<lparr> image_msg := Some ''data:image/png;base64,AAAA'' \<rparr>))
     = Parts [TextPart ''hello'', ImageUrlPart ''data:image/png;base64,AAAA'']"
  using deepseek_omits_image
    [of "[ex_user_msg \<lparr> image_msg := Some ''data:image/png;base64,AAAA'' \<rparr>]" "''Be brief.''"
        "''sk''" "ex_fetch []"
        "ex_user_msg \<lparr> image_msg := Some ''data:image/png;base64,AAAA'' \<rparr>"
        "''data:image/png;base64,AAAA''"]
  by (simp add: ex_user_msg_def role_name_def)

subsection \<open>Reads and lines\<close>

lemma split_acc_append:
  "split_acc d acc (a @ d # b) = split_acc d acc a @ split_acc d [] b"
proof (induction a arbitrary: acc)
  case Nil
  show ?case by simp
next
  case (Cons c a)
  show ?case
  proof (cases "c = d")
    case True
    with Cons.IH [of "[]"] show ?thesis by simp
  next
    case False
    with Cons.IH [of "c # acc"] show ?thesis by simp
  qed
qed

lemma sse_lines_append:
  "sse_lines (a @ CHR 0x0A # b) = sse_lines a @ sse_lines b"
  by (simp add: sse_lines_def split_str_def split_acc_append)

lemma sse_lines_empty: "sse_lines [] = []"
  by (simp add: sse_lines_def split_str_def trim_def)

lemma sse_lines_newline_end: "sse_lines (a @ [CHR 0x0A]) = sse_lines a"
  by (simp add: sse_lines_append sse_lines_empty)

lemma for_lines_append:
  "for_lines (l1 @ l2) ft tr =
     (case for_lines l1 ft tr of
        (True, ft', tr') \<Rightarrow> (True, ft', tr')
      | (False, ft', tr') \<Rightarrow> for_lines l2 ft' tr')"
  by (induction l1 arbitrary: ft tr) (auto split: option.splits)

lemma read_loop_join:
  "read_loop ((a @ [CHR 0x0A]) # b # vs) fin ft tr = read_loop ((a @ CHR 0x0A # b) # vs) fin ft tr"
proof -
  obtain ret ft1 tr1 where fl: "for_lines (sse_lines a) ft tr = (ret, ft1, tr1)"
    by (cases "for_lines (sse_lines a) ft tr") auto
  show ?thesis
    by (cases ret) (simp_all add: sse_lines_empty sse_lines_append for_lines_append fl)
qed

lemma read_loop_prefix:
  assumes "\<And>ft tr. read_loop xs fin ft tr = read_loop ys fin ft tr"
  shows "read_loop (vs @ xs) fin ft tr = read_loop (vs @ ys) fin ft tr"
proof (induction vs arbitrary: ft tr)
  case Nil
  show ?case using assms by simp
next
  case (Cons v vs)
  show ?case
    by (cases "for_lines (sse_lines v) ft tr") (auto simp: Cons.IH split: bool.splits)
qed

lemma split_acc_single: "d \<notin> set v \<Longrightarrow> split_acc d acc v = [rev acc @ v]"
  by (induction v arbitrary: acc) auto

lemma read_loop_skips_fragment:
  assumes "CHR 0x0A \<notin> set v" and "\<not> includes_str v ''[DONE]''"
    and "\<not> startsWith v ''data: '' \<or> data_line_chunk v = None"
  shows "read_loop (v # ws) fin ft tr = read_loop ws fin ft tr"
proof -
  have "sse_lines v = (if trim v = [] then [] else [v])"
    using assms(1) by (simp add: sse_lines_def split_str_def split_acc_single)
  then show ?thesis using assms(2,3) by auto
qed

lemma read_loop_whole:
  assumes "\<forall>v \<in> set vs. v \<noteq> [] \<and> last v = CHR 0x0A"
  shows "read_loop (vs @ [w]) fin ft tr = read_loop [concat vs @ w] fin ft tr"
  using assms
proof (induction vs arbitrary: ft tr)
  case Nil
  show ?case by simp
next
  case (Cons v vs)
  from Cons.prems obtain a where v: "v = a @ [CHR 0x0A]"
    by (metis append_butlast_last_id list.set_intros(1))
  from Cons.prems have rest: "\<forall>v \<in> set vs. v \<noteq> [] \<and> last v = CHR 0x0A" by simp
  have "read_loop ([v] @ (vs @ [w])) fin ft tr = read_loop ([v] @ [concat vs @ w]) fin ft tr"
    by (rule read_loop_prefix) (rule Cons.IH [OF rest])
  also have "\<dots> = read_loop [a @ CHR 0x0A # (concat vs @ w)] fin ft tr"
    using read_loop_join [of a "concat vs @ w" "[]" fin ft tr] by (simp add: v)
  finally show ?case by (simp add: v)
qed

subsection \<open>Objects and values\<close>

lemma find_obj_None:
  "find_obj h mid as = None \<Longrightarrow> update_found mid f (map h as) = map h as"
  by (induction as) (auto split: if_splits)

lemma find_obj_in: "find_obj h mid as = Some a \<Longrightarrow> a \<in> set as"
  by (induction as) (auto split: if_splits)

lemma find_obj_Some:
  "find_obj h mid as = Some a \<Longrightarrow> distinct as \<Longrightarrow>
   map (h(a := f (h a))) as = update_found mid f (map h as)"
proof (induction as)
  case Nil
  then show ?case by simp
next
  case (Cons b as)
  show ?case
  proof (cases "id_msg (h b) = mid")
    case True
    with Cons.prems have "a = b" "b \<notin> set as" by simp_all
    with True show ?thesis by (simp cong: map_cong)
  next
    case False
    with Cons.prems have f: "find_obj h mid as = Some a" and d: "distinct as" and b: "b \<notin> set as"
      by simp_all
    from find_obj_in [OF f] b have "a \<noteq> b" by auto
    with False Cons.IH [OF f d] show ?thesis by simp
  qed
qed

lemma patch_session_outside:
  "a \<notin> set (o_messages s) \<Longrightarrow> patch_session sid mid c s h a = h a"
  by (auto simp: patch_session_def split: option.splits dest: find_obj_in)

lemma patch_session_value:
  assumes "distinct (o_messages s)"
  shows "map (patch_session sid mid c s h) (o_messages s) =
     (if o_id s = sid
      then update_found mid (\<lambda>target. target \<lparr> content := content target @ c \<rparr>)
             (map h (o_messages s))
      else map h (o_messages s))"
proof (cases "o_id s = sid")
  case False
  then show ?thesis by (simp add: patch_session_def)
next
  case True
  show ?thesis
  proof (cases "find_obj h mid (o_messages s)")
    case None
    with True show ?thesis by (simp add: patch_session_def find_obj_None)
  next
    case (Some a)
    from find_obj_Some [OF Some assms,
        of "\<lambda>target. target \<lparr> content := content target @ c \<rparr>"]
    show ?thesis using True Some by (simp add: patch_session_def)
  qed
qed

lemma chunk_updater_outside:
  "a \<notin> set (refs ss) \<Longrightarrow> chunk_updater sid mid c ss h a = h a"
  by (induction ss arbitrary: h) (auto simp: refs_def patch_session_outside)

lemma session_value_cong:
  "\<forall>a \<in> set (o_messages s). h a = h' a \<Longrightarrow> session_value h s = session_value h' s"
  by (simp add: session_value_def)

lemma chunk_updater_value:
  "distinct (refs ss) \<Longrightarrow>
   map (session_value (chunk_updater sid mid c ss h)) ss =
     map (\<lambda>s. if id_sess s = sid
              then s \<lparr> messages := update_found mid
                        (\<lambda>target. target \<lparr> content := content target @ c \<rparr>) (messages s) \<rparr>
              else s)
       (map (session_value h) ss)"
proof (induction ss arbitrary: h)
  case Nil
  show ?case by simp
next
  case (Cons s ss)
  define h1 where "h1 = patch_session sid mid c s h"
  define upd :: "ChatSession \<Rightarrow> ChatSession"
    where "upd = (\<lambda>s. if id_sess s = sid
              then s \<lparr> messages := update_found mid
                        (\<lambda>target. target \<lparr> content := content target @ c \<rparr>) (messages s) \<rparr>
              else s)"
  from Cons.prems have ds: "distinct (o_messages s)" and dss: "distinct (refs ss)"
    and disj: "set (o_messages s) \<inter> set (refs ss) = {}"
    by (simp_all add: refs_def)
  have head: "map (chunk_updater sid mid c ss h1) (o_messages s) = map h1 (o_messages s)"
    using disj by (auto intro!: chunk_updater_outside)
  have "\<forall>t \<in> set ss. \<forall>a \<in> set (o_messages t). h1 a = h a"
    using disj by (auto simp: h1_def refs_def intro!: patch_session_outside)
  then have tail: "map (session_value h1) ss = map (session_value h) ss"
    by (auto intro!: session_value_cong)
  have "map h1 (o_messages s) =
          (if o_id s = sid
           then update_found mid (\<lambda>target. target \<lparr> content := content target @ c \<rparr>)
                  (map h (o_messages s))
           else map h (o_messages s))"
    unfolding h1_def by (rule patch_session_value [OF ds])
  with head have first: "session_value (chunk_updater sid mid c ss h1) s = upd (session_value h s)"
    by (simp add: session_value_def upd_def)
  have rest: "map (session_value (chunk_updater sid mid c ss h1)) ss
                = map upd (map (session_value h) ss)"
    using Cons.IH [OF dss, of h1] by (simp only: tail upd_def)
  have step: "chunk_updater sid mid c (s # ss) h = chunk_updater sid mid c ss h1"
    by (simp add: h1_def)
  have "map (session_value (chunk_updater sid mid c (s # ss) h)) (s # ss)
          = map upd (map (session_value h) (s # ss))"
    by (simp only: step list.map first rest)
  then show ?case unfolding upd_def .
qed

text \<open>
  When no message object is referenced twice, \<^verbatim>\<open>onChunk\<close> on objects is \<^verbatim>\<open>onChunk\<close> on
  values.
\<close>

lemma onChunk_obj_view:
  "distinct (refs (o_sessions S)) \<Longrightarrow> view (onChunk_obj turn c S) = onChunk turn c (view S)"
  by (simp add: view_def onChunk_obj_def onChunk_def chunk_updater_value)

lemma onChunk_obj_sessions: "o_sessions (onChunk_obj turn c S) = o_sessions S"
  by (simp add: onChunk_obj_def)

lemma onChunk_obj_fold_view:
  "distinct (refs (o_sessions S)) \<Longrightarrow>
   view (fold (onChunk_obj turn) cs S) = fold (onChunk turn) cs (view S)"
proof (induction cs arbitrary: S)
  case Nil
  show ?case by simp
next
  case (Cons c cs)
  from Cons.prems have "distinct (refs (o_sessions (onChunk_obj turn c S)))"
    by (simp add: onChunk_obj_sessions)
  from Cons.IH [OF this] Cons.prems show ?case by (simp add: onChunk_obj_view)
qed


subsection \<open>Sending, on objects\<close>

lemma fold_max_ge: "b \<le> fold max xs (b::nat)"
proof (induction xs arbitrary: b)
  case Nil
  show ?case by simp
next
  case (Cons x xs)
  have "b \<le> max x b" by simp
  also have "\<dots> \<le> fold max xs (max x b)" by (rule Cons.IH)
  finally show ?case by simp
qed

lemma fold_max_mem: "a \<in> set xs \<Longrightarrow> a \<le> fold max xs (b::nat)"
proof (induction xs arbitrary: b)
  case Nil
  then show ?case by simp
next
  case (Cons x xs)
  show ?case
  proof (cases "a = x")
    case True
    have "a \<le> max x b" using True by simp
    also have "\<dots> \<le> fold max xs (max x b)" by (rule fold_max_ge)
    finally show ?thesis by simp
  next
    case False
    with Cons.prems have "a \<in> set xs" by simp
    from Cons.IH [OF this] show ?thesis by simp
  qed
qed

lemma new_ref_fresh: "new_ref used \<notin> set used"
proof
  assume "new_ref used \<in> set used"
  from fold_max_mem [OF this, of 0] show False by (simp add: new_ref_def)
qed

lemma find_session_value:
  "find (\<lambda>s. id_sess s = sid) (map (session_value h) ss) =
     map_option (session_value h) (find (\<lambda>s. o_id s = sid) ss)"
  by (induction ss) (auto simp: session_value_def)

lemma send_value:
  assumes "h3 u = um" and "h3 p = ph" and "\<forall>a \<in> set (refs ss). h3 a = h a"
  shows "map (session_value h3)
           (map (\<lambda>s. if o_id s = sid then s \<lparr> o_messages := o_messages s @ [p] \<rparr> else s)
              (map (\<lambda>s. if o_id s = sid
                         then s \<lparr> o_messages := o_messages s @ [u], o_updatedAt := t \<rparr>
                         else s) ss))
       = map (\<lambda>s. if id_sess s = sid then s \<lparr> messages := messages s @ [ph] \<rparr> else s)
           (map (\<lambda>s. if id_sess s = sid
                      then s \<lparr> messages := messages s @ [um], updatedAt := t \<rparr>
                      else s)
              (map (session_value h) ss))"
  using assms by (induction ss) (auto simp: session_value_def refs_def)

lemma send_refs_subset:
  "set (refs (map (\<lambda>s. if o_id s = sid then s \<lparr> o_messages := o_messages s @ [p] \<rparr> else s)
              (map (\<lambda>s. if o_id s = sid
                         then s \<lparr> o_messages := o_messages s @ [u], o_updatedAt := t \<rparr>
                         else s) ss)))
   \<subseteq> set (refs ss) \<union> {u, p}"
  by (induction ss) (auto simp: refs_def)

lemma refs_subset_first:
  "set (refs ss)
   \<subseteq> set (refs (map (\<lambda>s. if o_id s = sid
                         then s \<lparr> o_messages := o_messages s @ [u], o_updatedAt := t \<rparr>
                         else s) ss))"
  by (induction ss) (auto simp: refs_def)

lemma send_distinct:
  assumes "distinct (refs ss)" and "distinct (map o_id ss)"
    and "u \<notin> set (refs ss)" and "p \<notin> set (refs ss)" and "u \<noteq> p"
  shows "distinct (refs
           (map (\<lambda>s. if o_id s = sid then s \<lparr> o_messages := o_messages s @ [p] \<rparr> else s)
              (map (\<lambda>s. if o_id s = sid
                         then s \<lparr> o_messages := o_messages s @ [u], o_updatedAt := t \<rparr>
                         else s) ss)))"
  using assms
proof (induction ss)
  case Nil
  show ?case by (simp add: refs_def)
next
  case (Cons s ss)
  from Cons.prems have d: "distinct (refs ss)" "distinct (map o_id ss)"
    "u \<notin> set (refs ss)" "p \<notin> set (refs ss)"
    and ds: "distinct (o_messages s)" and disj: "set (o_messages s) \<inter> set (refs ss) = {}"
    and us: "u \<notin> set (o_messages s)" and ps: "p \<notin> set (o_messages s)"
    and ids: "o_id s \<notin> o_id ` set ss"
    by (simp_all add: refs_def)
  show ?case
  proof (cases "o_id s = sid")
    case True
    with ids have "\<forall>t \<in> set ss. o_id t \<noteq> sid" by (metis image_eqI)
    then have same: "map (\<lambda>s. if o_id s = sid then s \<lparr> o_messages := o_messages s @ [p] \<rparr> else s)
              (map (\<lambda>s. if o_id s = sid
                         then s \<lparr> o_messages := o_messages s @ [u], o_updatedAt := t \<rparr>
                         else s) ss) = ss"
      by (induction ss) auto
    have "distinct ((o_messages s @ [u, p]) @ refs ss)"
      using d ds disj us ps Cons.prems(5) by auto
    with True same show ?thesis by (simp add: refs_def)
  next
    case False
    have "set (o_messages s) \<inter> (set (refs ss) \<union> {u, p}) = {}"
      using disj us ps by auto
    with send_refs_subset [where sid = sid and p = p and u = u and t = t and ss = ss]
    have "set (o_messages s) \<inter> set (refs
           (map (\<lambda>s. if o_id s = sid then s \<lparr> o_messages := o_messages s @ [p] \<rparr> else s)
              (map (\<lambda>s. if o_id s = sid
                         then s \<lparr> o_messages := o_messages s @ [u], o_updatedAt := t \<rparr>
                         else s) ss))) = {}"
      by blast
    with False ds Cons.IH [OF d Cons.prems(5)] show ?thesis
      by (simp add: refs_def)
  qed
qed

text \<open>
  \<^verbatim>\<open>handleSendMessage\<close> on objects is \<^verbatim>\<open>handleSendMessage\<close> on values, and with sessions
  of distinct ids it shares no object.
\<close>

lemma handleSendMessage_obj_view:
  assumes "handleSendMessage_obj now txt img S = (S1, r)"
  shows "handleSendMessage now txt img (view S) = (view S1, r)"
proof (cases "o_currentSessionId S")
  case None
  with assms show ?thesis
    by (auto simp: handleSendMessage_obj_def handleSendMessage_def view_def)
next
  case (Some sid)
  show ?thesis
  proof (cases "sid = []")
    case True
    with Some assms show ?thesis
      by (auto simp: handleSendMessage_obj_def handleSendMessage_def view_def)
  next
    case False
    define u where "u = new_ref (refs (o_sessions S))"
    define ss1 where "ss1 = map (\<lambda>s. if o_id s = sid
                         then s \<lparr> o_messages := o_messages s @ [u], o_updatedAt := now 2 \<rparr>
                         else s) (o_sessions S)"
    define p where "p = new_ref (u # refs ss1)"
    define um where "um = \<lparr> id_msg = num_toString (now 0), role = User, content = txt,
                              timestamp = now 1, image_msg = img, isError = None \<rparr>"
    define ph where "ph = \<lparr> id_msg = num_toString (now 3 + 1), role = Model, content = [],
                              timestamp = now 4, image_msg = None, isError = None \<rparr>"
    define h3 where "h3 = ((heap S)(u := um))(p := ph)"
    have up: "u \<noteq> p" using new_ref_fresh [of "u # refs ss1"] by (auto simp: p_def)
    have u_new: "u \<notin> set (refs (o_sessions S))" unfolding u_def by (rule new_ref_fresh)
    have "p \<notin> set (refs ss1)" using new_ref_fresh [of "u # refs ss1"] by (auto simp: p_def)
    with refs_subset_first [where ss = "o_sessions S" and sid = sid and u = u and t = "now 2"]
    have p_new: "p \<notin> set (refs (o_sessions S))" by (auto simp: ss1_def)
    have vals: "h3 u = um" "h3 p = ph" "\<forall>a \<in> set (refs (o_sessions S)). h3 a = heap S a"
      using up u_new p_new by (auto simp: h3_def)
    have "handleSendMessage_obj now txt img S =
            (S \<lparr> heap := h3,
                 o_sessions := map (\<lambda>s. if o_id s = sid
                                   then s \<lparr> o_messages := o_messages s @ [p] \<rparr> else s) ss1,
                 o_isLoading := True \<rparr>,
             Some \<lparr> t_sessionId = sid, t_aiMsgId = num_toString (now 3 + 1),
                    t_context = (case find (\<lambda>s. o_id s = sid) (o_sessions S) of
                                   None \<Rightarrow> [] | Some s \<Rightarrow> map (heap S) (o_messages s))
                                @ [um],
                    t_text = txt, t_settings = o_settings S \<rparr>)"
      using Some False
      by (simp add: handleSendMessage_obj_def Let_def u_def ss1_def p_def um_def ph_def
          h3_def cong: if_cong)
    with assms
    have S1: "S1 = S \<lparr> heap := h3,
                       o_sessions := map (\<lambda>s. if o_id s = sid
                                   then s \<lparr> o_messages := o_messages s @ [p] \<rparr> else s) ss1,
                       o_isLoading := True \<rparr>"
      and r: "r = Some \<lparr> t_sessionId = sid, t_aiMsgId = num_toString (now 3 + 1),
                         t_context = (case find (\<lambda>s. o_id s = sid) (o_sessions S) of
                                        None \<Rightarrow> [] | Some s \<Rightarrow> map (heap S) (o_messages s))
                                     @ [um],
                         t_text = txt, t_settings = o_settings S \<rparr>"
      by simp_all
    have ctx: "(case find (\<lambda>s. id_sess s = sid) (sessions (view S)) of
                  None \<Rightarrow> [] | Some s \<Rightarrow> messages s)
               = (case find (\<lambda>s. o_id s = sid) (o_sessions S) of
                    None \<Rightarrow> [] | Some s \<Rightarrow> map (heap S) (o_messages s))"
      by (simp add: view_def find_session_value session_value_def split: option.splits)
    have "sessions (view S1) =
            map (\<lambda>s. if id_sess s = sid then s \<lparr> messages := messages s @ [ph] \<rparr> else s)
              (map (\<lambda>s. if id_sess s = sid
                         then s \<lparr> messages := messages s @ [um], updatedAt := now 2 \<rparr>
                         else s)
                 (sessions (view S)))"
      using send_value [OF vals, where sid = sid and t = "now 2"]
      by (simp add: S1 view_def ss1_def)
    then have "view S1 = (view S) \<lparr> sessions :=
            map (\<lambda>s. if id_sess s = sid then s \<lparr> messages := messages s @ [ph] \<rparr> else s)
              (map (\<lambda>s. if id_sess s = sid
                         then s \<lparr> messages := messages s @ [um], updatedAt := now 2 \<rparr>
                         else s)
                 (sessions (view S))),
            isLoading := True \<rparr>"
      by (simp add: S1 view_def)
    moreover have "currentSessionId (view S) = Some sid" "settings (view S) = o_settings S"
      using Some by (simp_all add: view_def)
    ultimately show ?thesis
      using False ctx by (simp add: handleSendMessage_def Let_def r um_def ph_def)
  qed
qed

lemma handleSendMessage_obj_distinct:
  assumes "handleSendMessage_obj now txt img S = (S1, r)"
    and "distinct (refs (o_sessions S))" and "distinct (map o_id (o_sessions S))"
  shows "distinct (refs (o_sessions S1))"
proof (cases "o_currentSessionId S")
  case None
  with assms show ?thesis by (auto simp: handleSendMessage_obj_def)
next
  case (Some sid)
  show ?thesis
  proof (cases "sid = []")
    case True
    with Some assms show ?thesis by (auto simp: handleSendMessage_obj_def)
  next
    case False
    define u where "u = new_ref (refs (o_sessions S))"
    define ss1 where "ss1 = map (\<lambda>s. if o_id s = sid
                         then s \<lparr> o_messages := o_messages s @ [u], o_updatedAt := now 2 \<rparr>
                         else s) (o_sessions S)"
    define p where "p = new_ref (u # refs ss1)"
    have up: "u \<noteq> p" using new_ref_fresh [of "u # refs ss1"] by (auto simp: p_def)
    have u_new: "u \<notin> set (refs (o_sessions S))" unfolding u_def by (rule new_ref_fresh)
    have "p \<notin> set (refs ss1)" using new_ref_fresh [of "u # refs ss1"] by (auto simp: p_def)
    with refs_subset_first [where ss = "o_sessions S" and sid = sid and u = u and t = "now 2"]
    have p_new: "p \<notin> set (refs (o_sessions S))" by (auto simp: ss1_def)
    have "o_sessions (fst (handleSendMessage_obj now txt img S))
            = map (\<lambda>s. if o_id s = sid
                          then s \<lparr> o_messages := o_messages s @ [p] \<rparr> else s) ss1"
      using Some False
      by (simp add: handleSendMessage_obj_def Let_def u_def ss1_def p_def cong: if_cong)
    with assms(1)
    have "o_sessions S1 = map (\<lambda>s. if o_id s = sid
                                   then s \<lparr> o_messages := o_messages s @ [p] \<rparr> else s) ss1"
      by simp
    with send_distinct [OF assms(2,3) u_new p_new up, where sid = sid and t = "now 2"]
    show ?thesis by (simp add: ss1_def)
  qed
qed


text \<open>
  Where the two differ: two sessions of one id hold the same placeholder object, the
  updater reaches it once through each of them, and every chunk is appended twice.
\<close>

lemma shared_placeholder_gets_chunks_twice:
  "map content (messages (hd (sessions (view (fold (onChunk_obj ex_turn) [''H'', ''i'']
       (fst (handleSendMessage_obj (\<lambda>k. 1000) ''hello'' None ex_obj_twins)))))))
     = [''hello'', ''HHii'']"
  by code_simp

text \<open>
  Claim C1, as amended. The chunks of a turn, delivered in order, make up the content
  of its placeholder. The store is the one of message objects, changed in place as the
  code does, with sessions of distinct ids and no message object referenced twice; the
  send goes into an existing session in which no message has the new placeholder's id,
  and the user message does not have it either; each chunk is handled by one run of
  the updater. Then after the send and the chunks \<open>cs\<close> the session's messages are the
  earlier ones, the user message, and the placeholder with content \<open>concat cs\<close>. What
  the REST adapter makes of a response does not depend on how its text is divided into
  reads as long as the reads end where lines end: when every read but the last ends in
  a line feed, the outcome and the trace are those of the whole text read at once. Each
  read is split into lines on its own. A read that has no line feed and does not
  contain the end marker \<^verbatim>\<open>[DONE]\<close>, and that does not start with \<^verbatim>\<open>data: \<close> or gives no
  chunk, is skipped without ending the stream: the loop goes on with the next read as
  if the piece had not been there.
\<close>

theorem chunks_concatenate_reads_split_at_line_ends:
  assumes "handleSendMessage_obj now txt img S = (S1, Some turn)"
    and "distinct (refs (o_sessions S))"
    and "distinct (map o_id (o_sessions S))"
    and "i < length (o_sessions S)"
    and "o_id (o_sessions S ! i) = t_sessionId turn"
    and "\<forall>a \<in> set (o_messages (o_sessions S ! i)). id_msg (heap S a) \<noteq> t_aiMsgId turn"
    and "num_toString (now 0) \<noteq> t_aiMsgId turn"
  shows "messages (sessions (view (fold (onChunk_obj turn) cs S1)) ! i) =
           messages (sessions (view S) ! i)
           @ [\<lparr> id_msg = num_toString (now 0), role = User, content = txt,
                timestamp = now 1, image_msg = img, isError = None \<rparr>,
              \<lparr> id_msg = t_aiMsgId turn, role = Model, content = concat cs,
                timestamp = now 4, image_msg = None, isError = None \<rparr>]
       \<and> ((\<forall>v \<in> set vs. v \<noteq> [] \<and> last v = CHR 0x0A)
           \<longrightarrow> read_loop (vs @ [w]) fin ft tr = read_loop [concat vs @ w] fin ft tr)
       \<and> (CHR 0x0A \<notin> set v \<and> \<not> includes_str v ''[DONE]''
            \<and> (\<not> startsWith v ''data: '' \<or> data_line_chunk v = None)
           \<longrightarrow> read_loop (v # ws) fin ft tr = read_loop ws fin ft tr)"
proof -
  have send: "handleSendMessage now txt img (view S) = (view S1, Some turn)"
    by (rule handleSendMessage_obj_view [OF assms(1)])
  have "distinct (refs (o_sessions S1))"
    by (rule handleSendMessage_obj_distinct [OF assms(1,2,3)])
  then have chunks: "view (fold (onChunk_obj turn) cs S1) = fold (onChunk turn) cs (view S1)"
    by (rule onChunk_obj_fold_view)
  have i: "i < length (sessions (view S))"
    and sid: "id_sess (sessions (view S) ! i) = t_sessionId turn"
    and fresh: "\<forall>m \<in> set (messages (sessions (view S) ! i)). id_msg m \<noteq> t_aiMsgId turn"
    using assms(4,5,6) by (simp_all add: view_def session_value_def)
  from chunks_fill_placeholder [OF send i sid fresh assms(7), of cs]
    read_loop_whole [of vs w fin ft tr] read_loop_skips_fragment [of v ws fin ft tr]
  show ?thesis by (simp add: chunks)
qed

theorem chunks_concatenate_reads_split_at_line_ends_witness:
  "map content (messages (sessions (view (fold (onChunk_obj ex_turn) [''H'', ''i'']
       (fst (handleSendMessage_obj (\<lambda>k. 1000) ''hello'' None ex_obj_idle)))) ! 0))
     = [''hello'', ''Hi'']
   \<and> read_loop [ex_frame @ [CHR 0x0A], ''data: [DONE]'' @ [CHR 0x0A]] StreamDone [] []
       = (None, [OnChunk ''Hi'', OnComplete ''Hi''])
   \<and> read_loop [take 30 ex_body, ex_body] StreamDone [] []
       = (None, [OnChunk ''Hi'', OnComplete ''Hi''])"
proof -
  have "snd (handleSendMessage_obj (\<lambda>k. 1000) ''hello'' None ex_obj_idle) = Some ex_turn"
    by code_simp
  then have send: "handleSendMessage_obj (\<lambda>k. 1000) ''hello'' None ex_obj_idle
              = (fst (handleSendMessage_obj (\<lambda>k. 1000) ''hello'' None ex_obj_idle),
                 Some ex_turn)"
    by (simp add: prod_eq_iff)
  have unshared: "distinct (refs (o_sessions ex_obj_idle))"
    and ids: "distinct (map o_id (o_sessions ex_obj_idle))"
    and i: "0 < length (o_sessions ex_obj_idle)"
    and sid: "o_id (o_sessions ex_obj_idle ! 0) = t_sessionId ex_turn"
    and fresh: "\<forall>a \<in> set (o_messages (o_sessions ex_obj_idle ! 0)).
                  id_msg (heap ex_obj_idle a) \<noteq> t_aiMsgId ex_turn"
    by (simp_all add: ex_obj_idle_def ex_turn_def refs_def)
  have user: "num_toString ((\<lambda>k::nat. 1000::nat) 0) \<noteq> t_aiMsgId ex_turn"
    by code_simp
  have whole: "read_loop [ex_body] StreamDone [] [] = (None, [OnChunk ''Hi'', OnComplete ''Hi''])"
    by code_simp
  have old: "messages (sessions (view ex_obj_idle) ! 0) = []"
    by (simp add: ex_obj_idle_def view_def session_value_def)
  have piece: "CHR 0x0A \<notin> set (take 30 ex_body)" "\<not> includes_str (take 30 ex_body) ''[DONE]''"
    "data_line_chunk (take 30 ex_body) = None"
    by code_simp+
  show ?thesis
    using chunks_concatenate_reads_split_at_line_ends [OF send unshared ids i sid fresh user,
        of "[''H'', ''i'']" "[ex_frame @ [CHR 0x0A]]" "''data: [DONE]'' @ [CHR 0x0A]" StreamDone
           "[]" "[]" "take 30 ex_body" "[ex_body]"]
      whole old piece
    by (simp add: ex_body_def)
qed

text \<open>
  Claim C1 as stated fails. The same response text, a data frame with the delta
  \<^verbatim>\<open>Hi\<close> and the end marker, is read once in one piece and once in two pieces, the
  boundary falling inside the frame. Read in one piece it gives the chunk \<^verbatim>\<open>Hi\<close>,
  and the placeholder ends with that content. Read in two pieces it gives no chunk at
  all: neither piece is a data line holding a JSON value, both are skipped, and the
  placeholder stays empty.
\<close>

theorem split_frame_loses_delta:
  "concat ex_split = ex_body
   \<and> chunk_texts (snd (streamResponse [ex_user_msg] ex_settings (ex_env [ex_body]))) = [''Hi'']
   \<and> chunk_texts (snd (streamResponse [ex_user_msg] ex_settings (ex_env ex_split))) = []
   \<and> map content (messages (hd (sessions (foldl (deliver ex_turn) ex_state
        (snd (streamResponse [ex_user_msg] ex_settings (ex_env [ex_body])))))))
       = [''hello'', ''Hi'']
   \<and> map content (messages (hd (sessions (foldl (deliver ex_turn) ex_state
        (snd (streamResponse [ex_user_msg] ex_settings (ex_env ex_split)))))))
       = [''hello'', []]"
  by code_simp

subsection \<open>The end marker\<close>

text \<open>
  Claim C4, evaluated. On the body of the claim, the frame with \<^verbatim>\<open>Hi\<close> followed by
  \<^verbatim>\<open>data: [DONE]\<close>, the loop emits the chunk \<^verbatim>\<open>Hi\<close> and completes with \<^verbatim>\<open>Hi\<close>. But the
  test for the end of the stream is \<^verbatim>\<open>line.includes('[DONE]')\<close>, made on every line
  before anything is parsed. A data frame whose delta text is \<^verbatim>\<open>[DONE]\<close> is a data line
  other than the marker, and decoding it gives that text; the loop does not decode it:
  it completes at once with the empty text, and the frames after it are never read.
\<close>

theorem done_in_delta_ends_stream:
  "read_loop [ex_body] StreamDone [] [] = (None, [OnChunk ''Hi'', OnComplete ''Hi''])
   \<and> startsWith ex_marker_frame ''data: ''
   \<and> data_line_chunk ex_marker_frame = Some ''[DONE]''
   \<and> read_loop [ex_marker_frame @ [CHR 0x0A] @ ex_body] StreamDone [] []
       = (None, [OnComplete []])"
  by code_simp

end
